theory Spec2Isabelle
  imports Main "HOL-Library.Signed_Division" "HOL-Library.Multiset"
begin

section \<open>Readers and writers: a model of \<open>r_w_1.c\<close> and \<open>r_w_2.c\<close>\<close>

text \<open>
  The repository holds two programs. \<open>r_w_1.c\<close> lets readers into the library freely
  until a librarian thread closes the door and wakes the longest waiting writer;
  \<open>r_w_2.c\<close> keeps every reader and writer in one queue whose head the librarian
  serves. Both share \<open>get_random\<close> and, up to the number of duration pairs,
  \<open>args_interpreter\<close>. Functions that exist in both files carry the suffix \<open>1\<close> or
  \<open>2\<close> of their file.

  C \<open>int\<close> values are modelled as \<open>int\<close>; where the source can overflow or leave an
  array, the model returns a \<open>fault\<close> (or \<open>None\<close>) instead of a value. Readings of
  the clock (\<open>get_timestamp\<close>) and of the random generator (\<open>rand\<close>) are parameters.
\<close>

subsection \<open>C integers\<close>

definition INT_MIN :: int where
  "INT_MIN = - (2 ^ 31)"

definition INT_MAX :: int where
  "INT_MAX = 2 ^ 31 - 1"

definition in_int :: "int \<Rightarrow> bool" where
  "in_int x \<longleftrightarrow> INT_MIN \<le> x \<and> x \<le> INT_MAX"

datatype fault = Signed_overflow | Division_by_zero

subsection \<open>\<open>get_random\<close> (both files)\<close>

text \<open>
  \<^verbatim>\<open>int range = max - min + 1; return (rand() % range) + min;\<close>
  The first argument is the value \<open>rand()\<close> returned. \<open>%\<close> truncates towards zero
  (\<open>smod\<close>); each signed operation that leaves the range of \<open>int\<close> is undefined in C
  and a fault here, as is the remainder by zero.
\<close>

definition get_random :: "int \<Rightarrow> int \<Rightarrow> int \<Rightarrow> fault + int" where
  "get_random r mn mx =
     (if \<not> in_int (mx - mn) \<or> \<not> in_int (mx - mn + 1) then Inl Signed_overflow
      else let range = mx - mn + 1 in
        if range = 0 then Inl Division_by_zero
        else if \<not> in_int (r smod range + mn) then Inl Signed_overflow
        else Inr (r smod range + mn))"

subsection \<open>Globals\<close>

text \<open>
  The globals the two files share, with the fields each adds. A pointer that has not
  been given its \<open>malloc\<close>ed block yet is the empty list. \<open>struct presence\<close> is the
  element type of the two arrays of \<open>r_w_2.c\<close>.
\<close>

record globals =
  is_debug_run :: int
  readers_count :: int
  writers_count :: int
  min_reading_time :: int
  max_reading_time :: int
  min_writing_time :: int
  max_writing_time :: int

record globals1 = globals +
  writers_in_library :: "int list"
  writers_in_library_count :: int
  readers_in_library :: "int list"
  readers_in_library_count :: int
  writers_queue :: "int list"
  writers_queue_count :: int
  readers_queue :: "int list"
  readers_queue_count :: int
  writer_notification :: int
  min_allow_read_time :: int
  max_allow_read_time :: int

record presence =
  kind :: int
  id_no :: int
  timestamp :: int

record globals2 = globals +
  queue :: "presence list"
  in_library :: "presence list"

definition NO_KIND :: int where
  "NO_KIND = 0"

definition READER_KIND :: int where
  "READER_KIND = 1"

definition WRITER_KIND :: int where
  "WRITER_KIND = 2"

text \<open>The initialisers of the globals (a global without one starts as zero).\<close>

definition globals1_start :: globals1 where
  "globals1_start =
     \<lparr>is_debug_run = 0, readers_count = 0, writers_count = 0,
      min_reading_time = 0, max_reading_time = 5,
      min_writing_time = 5, max_writing_time = 15,
      writers_in_library = [], writers_in_library_count = 0,
      readers_in_library = [], readers_in_library_count = 0,
      writers_queue = [], writers_queue_count = 0,
      readers_queue = [], readers_queue_count = 0,
      writer_notification = 0,
      min_allow_read_time = 10, max_allow_read_time = 20\<rparr>"

definition globals2_start :: globals2 where
  "globals2_start =
     \<lparr>is_debug_run = 0, readers_count = 0, writers_count = 0,
      min_reading_time = 0, max_reading_time = 5,
      min_writing_time = 5, max_writing_time = 15,
      queue = [], in_library = []\<rparr>"

subsection \<open>\<open>atoi\<close> of the C library\<close>

text \<open>
  \<open>atoi\<close> skips white space, reads an optional sign and then decimal digits up to the
  first character that is not one; with no digit the result is 0. It reports no error.
  (A value outside \<open>int\<close> is undefined in C; the model keeps the mathematical value.)
\<close>

definition isspace :: "char \<Rightarrow> bool" where
  "isspace c \<longleftrightarrow> c \<in> set [CHR '' '', CHR 0x09, CHR 0x0A, CHR 0x0B, CHR 0x0C, CHR 0x0D]"

definition isdigit :: "char \<Rightarrow> bool" where
  "isdigit c \<longleftrightarrow> c \<in> set ''0123456789''"

fun digits_value :: "int \<Rightarrow> string \<Rightarrow> int" where
  "digits_value acc [] = acc"
| "digits_value acc (c # cs) =
     (if isdigit c then digits_value (10 * acc + (of_char c - 48)) cs else acc)"

definition atoi :: "string \<Rightarrow> int" where
  "atoi s =
     (case dropWhile isspace s of
        [] \<Rightarrow> 0
      | c # cs \<Rightarrow>
          if c = CHR ''-'' then - digits_value 0 cs
          else if c = CHR ''+'' then digits_value 0 cs
          else digits_value 0 (c # cs))"

subsection \<open>\<open>args_interpreter\<close>\<close>

text \<open>
  \<open>printf(ERROR_ARGUMENTS_MESSAGE); exit(EXIT_FAILURE);\<close> is the left injection: the
  text printed and the exit status. The right injection is the globals with which
  \<open>args_interpreter\<close> returns to \<open>main\<close>, which only then calls
  \<open>variables_initializer\<close> and \<open>init_queue\<close>.
\<close>

type_synonym exited = "string \<times> int"

definition EXIT_FAILURE :: int where
  "EXIT_FAILURE = 1"

definition ERROR_ARGUMENTS_MESSAGE1 :: string where
  "ERROR_ARGUMENTS_MESSAGE1 =
     ''Usage: ReaderAndWriters1 number_of_writers number_of_readers [-t min_reading_time max_reading_time min_writing_time max_writing_time min_allow_read_time max_allow_read_time] [-debug]'' @ [CHR 0x0A]"

definition ERROR_ARGUMENTS_MESSAGE2 :: string where
  "ERROR_ARGUMENTS_MESSAGE2 =
     ''Usage: ReaderAndWriters2 number_of_writers number_of_readers [-t min_reading_time max_reading_time min_writing_time max_writing_time] [-debug]'' @ [CHR 0x0A]"

definition usage1 :: exited where
  "usage1 = (ERROR_ARGUMENTS_MESSAGE1, EXIT_FAILURE)"

definition usage2 :: exited where
  "usage2 = (ERROR_ARGUMENTS_MESSAGE2, EXIT_FAILURE)"

text \<open>
  The three blocks that read a pair and swap it (\<open>argv[4..5]\<close>, \<open>argv[6..7]\<close>, and in
  \<open>r_w_1.c\<close> \<open>argv[8..9]\<close>): two assignments, then the exchange through \<open>temp\<close>.
\<close>

definition read_reading_times :: "string list \<Rightarrow> 'a globals_scheme \<Rightarrow> 'a globals_scheme" where
  "read_reading_times argv g =
     (let g' = g\<lparr>min_reading_time := atoi (argv ! 4), max_reading_time := atoi (argv ! 5)\<rparr>
      in if min_reading_time g' > max_reading_time g'
         then g'\<lparr>min_reading_time := max_reading_time g', max_reading_time := min_reading_time g'\<rparr>
         else g')"

definition read_writing_times :: "string list \<Rightarrow> 'a globals_scheme \<Rightarrow> 'a globals_scheme" where
  "read_writing_times argv g =
     (let g' = g\<lparr>min_writing_time := atoi (argv ! 6), max_writing_time := atoi (argv ! 7)\<rparr>
      in if min_writing_time g' > max_writing_time g'
         then g'\<lparr>min_writing_time := max_writing_time g', max_writing_time := min_writing_time g'\<rparr>
         else g')"

definition read_allow_read_times :: "string list \<Rightarrow> globals1 \<Rightarrow> globals1" where
  "read_allow_read_times argv g =
     (let g' = g\<lparr>min_allow_read_time := atoi (argv ! 8), max_allow_read_time := atoi (argv ! 9)\<rparr>
      in if min_allow_read_time g' > max_allow_read_time g'
         then g'\<lparr>min_allow_read_time := max_allow_read_time g',
                 max_allow_read_time := min_allow_read_time g'\<rparr>
         else g')"

text \<open>\<open>argc\<close> is the length of \<open>argv\<close>; \<open>argv[0]\<close> is the program's name.\<close>

definition args_interpreter1 :: "string list \<Rightarrow> globals1 \<Rightarrow> exited + globals1" where
  "args_interpreter1 argv g =
     (let argc = length argv in
      if argc < 3 then Inl usage1
      else
        let g1 = g\<lparr>writers_count := atoi (argv ! 1), writers_queue_count := atoi (argv ! 1),
                   readers_count := atoi (argv ! 2), readers_queue_count := atoi (argv ! 2)\<rparr>
        in
        case (if argc > 3 then
                (if argv ! 3 = ''-t'' then
                   (if argc < 10 then Inl usage1
                    else Inr (read_allow_read_times argv
                               (read_writing_times argv (read_reading_times argv g1))))
                 else if argv ! 3 = ''-debug'' then Inr (g1\<lparr>is_debug_run := 1\<rparr>)
                 else Inl usage1)
              else Inr g1) of
          Inl e \<Rightarrow> Inl e
        | Inr g2 \<Rightarrow>
            (case (if argc = 11 then
                     (if argv ! 10 = ''-debug'' then Inr (g2\<lparr>is_debug_run := 1\<rparr>)
                      else Inl usage1)
                   else Inr g2) of
               Inl e \<Rightarrow> Inl e
             | Inr g3 \<Rightarrow> if argc > 11 then Inl usage1 else Inr g3))"

definition args_interpreter2 :: "string list \<Rightarrow> globals2 \<Rightarrow> exited + globals2" where
  "args_interpreter2 argv g =
     (let argc = length argv in
      if argc < 3 then Inl usage2
      else
        let g1 = g\<lparr>writers_count := atoi (argv ! 1), readers_count := atoi (argv ! 2)\<rparr>
        in
        case (if argc > 3 then
                (if argv ! 3 = ''-t'' then
                   (if argc < 8 then Inl usage2
                    else Inr (read_writing_times argv (read_reading_times argv g1)))
                 else if argv ! 3 = ''-debug'' then Inr (g1\<lparr>is_debug_run := 1\<rparr>)
                 else Inl usage2)
              else Inr g1) of
          Inl e \<Rightarrow> Inl e
        | Inr g2 \<Rightarrow>
            (case (if argc = 9 then
                     (if argv ! 8 = ''-debug'' then Inr (g2\<lparr>is_debug_run := 1\<rparr>)
                      else Inl usage2)
                   else Inr g2) of
               Inl e \<Rightarrow> Inl e
             | Inr g3 \<Rightarrow> if argc > 9 then Inl usage2 else Inr g3))"

subsection \<open>\<open>r_w_2.c\<close>: the queue and the library\<close>

text \<open>
  \<open>variables_initializer\<close> allocates both arrays with \<open>writers_count + readers_count\<close>
  elements. \<open>malloc\<close> does not initialise them: what the fresh blocks hold is given by
  \<open>mq\<close> and \<open>ml\<close>.
\<close>

definition variables_initializer2 ::
    "(nat \<Rightarrow> presence) \<Rightarrow> (nat \<Rightarrow> presence) \<Rightarrow> globals2 \<Rightarrow> globals2" where
  "variables_initializer2 mq ml g =
     g\<lparr>queue := map mq [0..<nat (writers_count g + readers_count g)],
       in_library := map ml [0..<nat (writers_count g + readers_count g)]\<rparr>"

text \<open>
  \<^verbatim>\<open>while (queue[first_empty_position].kind != NO_KIND) first_empty_position++;\<close>
  The loop has no bound of its own: with no empty element it reads past the end of the
  array, which is \<open>None\<close> here.
\<close>

function first_empty_position :: "presence list \<Rightarrow> nat \<Rightarrow> nat option" where
  "first_empty_position a p =
     (if p < length a then
        (if kind (a ! p) \<noteq> NO_KIND then first_empty_position a (Suc p) else Some p)
      else None)"
  by pat_completeness auto
termination
  by (relation "measure (\<lambda>(a, p). length a - p)") auto

declare first_empty_position.simps [simp del]

definition get_to_queue :: "int \<Rightarrow> int \<Rightarrow> int \<Rightarrow> globals2 \<Rightarrow> globals2 option" where
  "get_to_queue now knd idn g =
     (case first_empty_position (queue g) 0 of
        None \<Rightarrow> None
      | Some p \<Rightarrow> Some (g\<lparr>queue := (queue g)[p := \<lparr>kind = knd, id_no = idn, timestamp = now\<rparr>]\<rparr>))"

definition get_to_library :: "int \<Rightarrow> int \<Rightarrow> int \<Rightarrow> globals2 \<Rightarrow> globals2 option" where
  "get_to_library now knd idn g =
     (case first_empty_position (in_library g) 0 of
        None \<Rightarrow> None
      | Some p \<Rightarrow>
          Some (g\<lparr>in_library := (in_library g)[p := \<lparr>kind = knd, id_no = idn, timestamp = now\<rparr>]\<rparr>))"

text \<open>
  \<^verbatim>\<open>while (queue[i + 1].kind != NO_KIND && i < 20) { queue[i] = queue[i + 1]; i++; }\<close>
  \<^verbatim>\<open>queue[i].kind = NO_KIND;\<close>
  (the three fields are copied one by one). \<open>queue[i + 1]\<close> is read before \<open>i < 20\<close> is
  tested, so on a queue with no empty element after the head the loop reads the element
  after the last one: \<open>None\<close>.
\<close>

function leave_queue_loop :: "presence list \<Rightarrow> nat \<Rightarrow> (presence list \<times> nat) option" where
  "leave_queue_loop q i =
     (if Suc i < length q then
        (if kind (q ! Suc i) \<noteq> NO_KIND \<and> i < 20
         then leave_queue_loop (q[i := q ! Suc i]) (Suc i)
         else Some (q, i))
      else None)"
  by pat_completeness auto
termination
  by (relation "measure (\<lambda>(q, i). length q - i)") auto

declare leave_queue_loop.simps [simp del]

definition leave_queue :: "globals2 \<Rightarrow> globals2 option" where
  "leave_queue g =
     (case leave_queue_loop (queue g) 0 of
        None \<Rightarrow> None
      | Some (q, i) \<Rightarrow> Some (g\<lparr>queue := q[i := (q ! i)\<lparr>kind := NO_KIND\<rparr>]\<rparr>))"

text \<open>
  \<^verbatim>\<open>for (int i = 0; i < readers_count + writers_count; i++)\<close>
  \<^verbatim>\<open>  if (in_library[i].kind == kind && in_library[i].id == id) { in_library[i].kind = NO_KIND; break; }\<close>
\<close>

function leave_library_loop ::
    "int \<Rightarrow> int \<Rightarrow> nat \<Rightarrow> presence list \<Rightarrow> nat \<Rightarrow> presence list option" where
  "leave_library_loop knd idn n a i =
     (if i < n then
        (if i < length a then
           (if kind (a ! i) = knd \<and> id_no (a ! i) = idn
            then Some (a[i := (a ! i)\<lparr>kind := NO_KIND\<rparr>])
            else leave_library_loop knd idn n a (Suc i))
         else None)
      else Some a)"
  by pat_completeness auto
termination
  by (relation "measure (\<lambda>(knd, idn, n, a, i). n - i)") auto

declare leave_library_loop.simps [simp del]

definition leave_library :: "int \<Rightarrow> int \<Rightarrow> globals2 \<Rightarrow> globals2 option" where
  "leave_library knd idn g =
     (case leave_library_loop knd idn (nat (readers_count g + writers_count g)) (in_library g) 0 of
        None \<Rightarrow> None
      | Some a \<Rightarrow> Some (g\<lparr>in_library := a\<rparr>))"

text \<open>
  The four counting functions: a loop over \<open>writers_count + readers_count\<close> elements
  that counts those of one kind.
\<close>

definition count_kind :: "int \<Rightarrow> nat \<Rightarrow> presence list \<Rightarrow> int" where
  "count_kind k n a = foldl (\<lambda>count i. if kind (a ! i) = k then count + 1 else count) 0 [0..<n]"

definition get_writers_queue_count :: "globals2 \<Rightarrow> int" where
  "get_writers_queue_count g =
     count_kind WRITER_KIND (nat (writers_count g + readers_count g)) (queue g)"

definition get_readers_queue_count :: "globals2 \<Rightarrow> int" where
  "get_readers_queue_count g =
     count_kind READER_KIND (nat (writers_count g + readers_count g)) (queue g)"

definition get_writers_in_library_count :: "globals2 \<Rightarrow> int" where
  "get_writers_in_library_count g =
     count_kind WRITER_KIND (nat (writers_count g + readers_count g)) (in_library g)"

definition get_readers_in_library_count :: "globals2 \<Rightarrow> int" where
  "get_readers_in_library_count g =
     count_kind READER_KIND (nat (writers_count g + readers_count g)) (in_library g)"

text \<open>
  \<open>read_books\<close> and \<open>write_book\<close> hold the mutex twice, around the sleep: once to
  enter (\<open>leave_queue\<close>, \<open>get_to_library\<close>) and once to go back
  (\<open>leave_library\<close>, \<open>get_to_queue\<close>). Each critical section is one function; \<open>print\<close>
  changes nothing.
\<close>

definition read_books_enter2 :: "int \<Rightarrow> int \<Rightarrow> globals2 \<Rightarrow> globals2 option" where
  "read_books_enter2 now reader_id g =
     Option.bind (leave_queue g) (get_to_library now READER_KIND reader_id)"

definition read_books_exit2 :: "int \<Rightarrow> int \<Rightarrow> globals2 \<Rightarrow> globals2 option" where
  "read_books_exit2 now reader_id g =
     Option.bind (leave_library READER_KIND reader_id g) (get_to_queue now READER_KIND reader_id)"

definition write_book_enter2 :: "int \<Rightarrow> int \<Rightarrow> globals2 \<Rightarrow> globals2 option" where
  "write_book_enter2 now writer_id g =
     Option.bind (leave_queue g) (get_to_library now WRITER_KIND writer_id)"

definition write_book_exit2 :: "int \<Rightarrow> int \<Rightarrow> globals2 \<Rightarrow> globals2 option" where
  "write_book_exit2 now writer_id g =
     Option.bind (leave_library WRITER_KIND writer_id g) (get_to_queue now WRITER_KIND writer_id)"

text \<open>
  \<open>init_queue\<close>: for \<open>i\<close> below \<open>readers_count\<close>, \<open>get_to_queue(READER_KIND, i)\<close> and
  \<open>in_library[i].kind = NO_KIND\<close>; then for \<open>i\<close> from \<open>readers_count\<close> below
  \<open>writers_count + readers_count\<close>, \<open>get_to_queue(WRITER_KIND, i - readers_count)\<close> and
  the same assignment. \<open>clk i\<close> is the clock as \<open>get_to_queue\<close> reads it in round \<open>i\<close>;
  \<open>off\<close> is what is subtracted from \<open>i\<close> to get the id. The counts are taken to be
  non-negative (with a negative one the model gives \<open>None\<close>).
\<close>

fun init_queue_loop :: "(nat \<Rightarrow> int) \<Rightarrow> int \<Rightarrow> int \<Rightarrow> nat list \<Rightarrow> globals2 \<Rightarrow> globals2 option" where
  "init_queue_loop clk knd off [] g = Some g"
| "init_queue_loop clk knd off (i # rest) g =
     (case get_to_queue (clk i) knd (int i - off) g of
        None \<Rightarrow> None
      | Some g' \<Rightarrow>
          if i < length (in_library g')
          then init_queue_loop clk knd off rest
                 (g'\<lparr>in_library := (in_library g')[i := (in_library g' ! i)\<lparr>kind := NO_KIND\<rparr>]\<rparr>)
          else None)"

definition init_queue2 :: "(nat \<Rightarrow> int) \<Rightarrow> globals2 \<Rightarrow> globals2 option" where
  "init_queue2 clk g =
     (if readers_count g < 0 \<or> writers_count g < 0 then None
      else Option.bind
             (init_queue_loop clk READER_KIND 0 [0..<nat (readers_count g)] g)
             (init_queue_loop clk WRITER_KIND (readers_count g)
                [nat (readers_count g)..<nat (writers_count g + readers_count g)]))"

subsection \<open>\<open>r_w_1.c\<close>: queues, library and librarian\<close>

text \<open>
  \<open>variables_initializer\<close> allocates the four arrays of time stamps, one element for
  each writer or reader; the four functions give what the fresh blocks hold.
  \<open>init_queue\<close> reads the clock once and stores the reading in every element of the two
  queues. It leaves \<open>writers_in_library\<close> and \<open>readers_in_library\<close> as allocated.
\<close>

definition variables_initializer1 ::
    "(nat \<Rightarrow> int) \<Rightarrow> (nat \<Rightarrow> int) \<Rightarrow> (nat \<Rightarrow> int) \<Rightarrow> (nat \<Rightarrow> int) \<Rightarrow> globals1 \<Rightarrow> globals1" where
  "variables_initializer1 mwl mwq mrl mrq g =
     g\<lparr>writers_in_library := map mwl [0..<nat (writers_count g)],
       writers_queue := map mwq [0..<nat (writers_count g)],
       readers_in_library := map mrl [0..<nat (readers_count g)],
       readers_queue := map mrq [0..<nat (readers_count g)]\<rparr>"

definition init_queue1 :: "int \<Rightarrow> globals1 \<Rightarrow> globals1" where
  "init_queue1 now g =
     g\<lparr>readers_queue := foldl (\<lambda>q i. q[i := now]) (readers_queue g) [0..<nat (readers_count g)],
       writers_queue := foldl (\<lambda>q i. q[i := now]) (writers_queue g) [0..<nat (writers_count g)]\<rparr>"

text \<open>
  The two critical sections of \<open>read_books\<close> and of \<open>write_book\<close>; \<open>now\<close> is the clock
  as read inside. The id indexes the arrays; an id outside them is \<open>None\<close> (\<open>main\<close>
  gives the threads the ids below the counts).
\<close>

definition read_books_enter1 :: "int \<Rightarrow> nat \<Rightarrow> globals1 \<Rightarrow> globals1 option" where
  "read_books_enter1 now reader_id g =
     (if reader_id < length (readers_in_library g) \<and> reader_id < length (readers_queue g)
      then Some (g\<lparr>readers_in_library := (readers_in_library g)[reader_id := now],
                   readers_queue := (readers_queue g)[reader_id := 0],
                   readers_in_library_count := readers_in_library_count g + 1,
                   readers_queue_count := readers_queue_count g - 1\<rparr>)
      else None)"

definition read_books_exit1 :: "int \<Rightarrow> nat \<Rightarrow> globals1 \<Rightarrow> globals1 option" where
  "read_books_exit1 now reader_id g =
     (if reader_id < length (readers_in_library g) \<and> reader_id < length (readers_queue g)
      then Some (g\<lparr>readers_in_library := (readers_in_library g)[reader_id := 0],
                   readers_queue := (readers_queue g)[reader_id := now],
                   readers_in_library_count := readers_in_library_count g - 1,
                   readers_queue_count := readers_queue_count g + 1\<rparr>)
      else None)"

definition write_book_enter1 :: "int \<Rightarrow> nat \<Rightarrow> globals1 \<Rightarrow> globals1 option" where
  "write_book_enter1 now writer_id g =
     (if writer_id < length (writers_in_library g) \<and> writer_id < length (writers_queue g)
      then Some (g\<lparr>writers_in_library := (writers_in_library g)[writer_id := now],
                   writers_queue := (writers_queue g)[writer_id := 0],
                   writers_in_library_count := writers_in_library_count g + 1,
                   writers_queue_count := writers_queue_count g - 1\<rparr>)
      else None)"

definition write_book_exit1 :: "int \<Rightarrow> nat \<Rightarrow> globals1 \<Rightarrow> globals1 option" where
  "write_book_exit1 now writer_id g =
     (if writer_id < length (writers_in_library g) \<and> writer_id < length (writers_queue g)
      then Some (g\<lparr>writers_in_library := (writers_in_library g)[writer_id := 0],
                   writers_queue := (writers_queue g)[writer_id := now],
                   writers_in_library_count := writers_in_library_count g - 1,
                   writers_queue_count := writers_queue_count g + 1,
                   writer_notification := 0\<rparr>)
      else None)"

text \<open>
  The librarian's search (lines 334 to 341):
  \<^verbatim>\<open>int i, time, max_waiter_id = 0, max_time = 0;\<close>
  \<^verbatim>\<open>for (i = 0; i < writers_count; i++) {\<close>
  \<^verbatim>\<open>  time = get_timestamp() - writers_queue[i];\<close>
  \<^verbatim>\<open>  if (time > max_time) { max_time = time; max_waiter_id = i; } }\<close>
  \<open>clk i\<close> is the clock as read in round \<open>i\<close>. The difference of two \<open>time_t\<close> is
  stored in an \<open>int\<close>: \<open>to_int\<close> is that conversion (the value modulo \<open>2 ^ 32\<close>, as
  the compilers in use define it). The state of the loop is
  \<open>(max_waiter_id, max_time)\<close>.
\<close>

definition to_int :: "int \<Rightarrow> int" where
  "to_int x = (x + 2 ^ 31) mod 2 ^ 32 - 2 ^ 31"

fun longest_waiting :: "(nat \<Rightarrow> int) \<Rightarrow> int list \<Rightarrow> nat list \<Rightarrow> nat \<times> int \<Rightarrow> nat \<times> int" where
  "longest_waiting clk wq [] (max_waiter_id, max_time) = (max_waiter_id, max_time)"
| "longest_waiting clk wq (i # rest) (max_waiter_id, max_time) =
     (let time = to_int (clk i - wq ! i)
      in if time > max_time then longest_waiting clk wq rest (i, time)
         else longest_waiting clk wq rest (max_waiter_id, max_time))"

text \<open>
  One round of the librarian after its sleep (lines 332 to 343), run with no other
  thread taking a step in between: unless a writer is in the library, set
  \<open>writer_notification\<close>, search, and signal the condition variable of the writer
  found. The second component is the index of the condition variable signalled, if any.
  \<open>writers_conds\<close> has \<open>writers_count\<close> elements. The librarian does not hold the
  mutex, so other threads can come between its readings; the threads below have the
  round piece by piece as well.
\<close>

definition librarian_cycle :: "(nat \<Rightarrow> int) \<Rightarrow> globals1 \<Rightarrow> globals1 \<times> nat option" where
  "librarian_cycle clk g =
     (if writers_in_library_count g = 0
      then (g\<lparr>writer_notification := 1\<rparr>,
            Some (fst (longest_waiting clk (writers_queue g) [0..<nat (writers_count g)] (0, 0))))
      else (g, None))"

text \<open>
  \<open>main\<close> up to the creation of the threads: \<open>args_interpreter\<close>,
  \<open>variables_initializer\<close>, \<open>init_queue\<close>.
\<close>

definition startup1 ::
    "string list \<Rightarrow> (nat \<Rightarrow> int) \<Rightarrow> (nat \<Rightarrow> int) \<Rightarrow> (nat \<Rightarrow> int) \<Rightarrow> (nat \<Rightarrow> int) \<Rightarrow> int
       \<Rightarrow> exited + globals1" where
  "startup1 argv mwl mwq mrl mrq now =
     (case args_interpreter1 argv globals1_start of
        Inl e \<Rightarrow> Inl e
      | Inr g \<Rightarrow> Inr (init_queue1 now (variables_initializer1 mwl mwq mrl mrq g)))"

definition startup2 ::
    "string list \<Rightarrow> (nat \<Rightarrow> presence) \<Rightarrow> (nat \<Rightarrow> presence) \<Rightarrow> (nat \<Rightarrow> int)
       \<Rightarrow> exited + globals2 option" where
  "startup2 argv mq ml clk =
     (case args_interpreter2 argv globals2_start of
        Inl e \<Rightarrow> Inl e
      | Inr g \<Rightarrow> Inr (init_queue2 clk (variables_initializer2 mq ml g)))"

subsection \<open>\<open>r_w_1.c\<close>: the threads\<close>

text \<open>
  Where a thread stands between two of its steps. A step is what a thread does without
  another thread being able to come between: a critical section, or one reading of a
  shared variable.

  A reader (\<open>reader\<close>, lines 294 to 301) is at the top of its loop; or blocked in
  \<open>pthread_cond_wait(&readers_cond, ...)\<close>; or past line 299 and about to call
  \<open>read_books\<close>; or inside the library, between the two critical sections of
  \<open>read_books\<close>.

  A writer (\<open>writer\<close>, lines 313 to 320) is at the top of its loop; or blocked on its
  own condition variable; or woken and in \<open>while (readers_in_library_count);\<close>; or out
  of that loop and about to call \<open>write_book\<close>; or inside the library; or back from
  \<open>write_book\<close> and about to broadcast \<open>readers_cond\<close>.

  The librarian (\<open>librarian\<close>, lines 330 to 345) holds the mutex nowhere, so every
  reading and writing of a shared variable is a step of its own. It sleeps; or has read
  \<open>writers_in_library_count\<close> as 0 in line 332 and is about to set
  \<open>writer_notification\<close>; or is in the \<open>for\<close> loop of lines 335 to 341, about to
  test \<open>i < writers_count\<close>, with its local variables \<open>i\<close>, \<open>max_waiter_id\<close> and
  \<open>max_time\<close>; or is in \<open>while (writers_in_library_count);\<close>.
\<close>

datatype reader_pc = Reader_top | Reader_blocked | Reader_admitted | Reader_inside

datatype writer_pc =
  Writer_top | Writer_blocked | Writer_woken | Writer_admitted | Writer_inside | Writer_back

datatype librarian_pc =
  Librarian_sleeps | Librarian_found_no_writer | Librarian_searches nat nat int | Librarian_waits

record system1 =
  shared :: globals1
  readers :: "reader_pc list"
  writers :: "writer_pc list"
  librarian_at :: librarian_pc
  clock :: int

datatype action1 =
    Tick
  | Reader_checks nat
  | Reader_enters nat
  | Reader_leaves nat
  | Writer_waits nat
  | Writer_sees_no_reader nat
  | Writer_enters nat
  | Writer_leaves nat
  | Writer_broadcasts nat
  | Librarian_cycles
  | Librarian_sees_no_writer
  | Librarian_tests
  | Librarian_notifies
  | Librarian_compares
  | Librarian_signals

text \<open>
  One step of one thread; \<open>None\<close> when the thread is not at the place the step starts
  from, or is held there (a spin loop whose condition still holds).
  \<open>pthread_cond_signal\<close> moves the writer on only if it is blocked on its condition
  variable; \<open>pthread_cond_broadcast\<close> moves on every reader blocked on \<open>readers_cond\<close>.

  The librarian's round is there twice. \<open>Librarian_cycles\<close> is the whole round of
  \<open>librarian_cycle\<close> with no other thread coming between. The four steps after
  \<open>Librarian_sees_no_writer\<close> are the same round piece by piece: \<open>Librarian_tests\<close>
  is the test of line 332, \<open>Librarian_notifies\<close> the assignment of line 333,
  \<open>Librarian_compares\<close> one round of the \<open>for\<close> loop (lines 335 to 340) with the
  clock and \<open>writers_queue[i]\<close> as they are at that moment, and \<open>Librarian_signals\<close>
  the end of the loop and the \<open>pthread_cond_signal\<close> of line 342. Between any two of
  them a reader or writer can take a step.
\<close>

fun step1 :: "action1 \<Rightarrow> system1 \<Rightarrow> system1 option" where
  "step1 Tick s = Some (s\<lparr>clock := clock s + 1\<rparr>)"
| "step1 (Reader_checks i) s =
     (if i < length (readers s) \<and> readers s ! i = Reader_top
      then Some (s\<lparr>readers := (readers s)[i :=
                     (if writer_notification (shared s) \<noteq> 0 then Reader_blocked
                      else Reader_admitted)]\<rparr>)
      else None)"
| "step1 (Reader_enters i) s =
     (if i < length (readers s) \<and> readers s ! i = Reader_admitted
      then (case read_books_enter1 (clock s) i (shared s) of
              None \<Rightarrow> None
            | Some g \<Rightarrow> Some (s\<lparr>shared := g, readers := (readers s)[i := Reader_inside]\<rparr>))
      else None)"
| "step1 (Reader_leaves i) s =
     (if i < length (readers s) \<and> readers s ! i = Reader_inside
      then (case read_books_exit1 (clock s) i (shared s) of
              None \<Rightarrow> None
            | Some g \<Rightarrow> Some (s\<lparr>shared := g, readers := (readers s)[i := Reader_top]\<rparr>))
      else None)"
| "step1 (Writer_waits i) s =
     (if i < length (writers s) \<and> writers s ! i = Writer_top
      then Some (s\<lparr>writers := (writers s)[i := Writer_blocked]\<rparr>)
      else None)"
| "step1 (Writer_sees_no_reader i) s =
     (if i < length (writers s) \<and> writers s ! i = Writer_woken
         \<and> readers_in_library_count (shared s) = 0
      then Some (s\<lparr>writers := (writers s)[i := Writer_admitted]\<rparr>)
      else None)"
| "step1 (Writer_enters i) s =
     (if i < length (writers s) \<and> writers s ! i = Writer_admitted
      then (case write_book_enter1 (clock s) i (shared s) of
              None \<Rightarrow> None
            | Some g \<Rightarrow> Some (s\<lparr>shared := g, writers := (writers s)[i := Writer_inside]\<rparr>))
      else None)"
| "step1 (Writer_leaves i) s =
     (if i < length (writers s) \<and> writers s ! i = Writer_inside
      then (case write_book_exit1 (clock s) i (shared s) of
              None \<Rightarrow> None
            | Some g \<Rightarrow> Some (s\<lparr>shared := g, writers := (writers s)[i := Writer_back]\<rparr>))
      else None)"
| "step1 (Writer_broadcasts i) s =
     (if i < length (writers s) \<and> writers s ! i = Writer_back
      then Some (s\<lparr>writers := (writers s)[i := Writer_top],
                   readers := map (\<lambda>pc. if pc = Reader_blocked then Reader_admitted else pc)
                                (readers s)\<rparr>)
      else None)"
| "step1 Librarian_cycles s =
     (if librarian_at s = Librarian_sleeps
      then (case librarian_cycle (\<lambda>i. clock s) (shared s) of
              (g, signalled) \<Rightarrow>
                Some (s\<lparr>shared := g,
                        writers :=
                          (case signalled of
                             None \<Rightarrow> writers s
                           | Some k \<Rightarrow>
                               if k < length (writers s) \<and> writers s ! k = Writer_blocked
                               then (writers s)[k := Writer_woken] else writers s),
                        librarian_at := Librarian_waits\<rparr>))
      else None)"
| "step1 Librarian_sees_no_writer s =
     (if librarian_at s = Librarian_waits \<and> writers_in_library_count (shared s) = 0
      then Some (s\<lparr>librarian_at := Librarian_sleeps\<rparr>)
      else None)"
| "step1 Librarian_tests s =
     (if librarian_at s = Librarian_sleeps
      then Some (s\<lparr>librarian_at :=
                     (if writers_in_library_count (shared s) = 0 then Librarian_found_no_writer
                      else Librarian_waits)\<rparr>)
      else None)"
| "step1 Librarian_notifies s =
     (if librarian_at s = Librarian_found_no_writer
      then Some (s\<lparr>shared := (shared s)\<lparr>writer_notification := 1\<rparr>,
                   librarian_at := Librarian_searches 0 0 0\<rparr>)
      else None)"
| "step1 Librarian_compares s =
     (case librarian_at s of
        Librarian_searches i max_waiter_id max_time \<Rightarrow>
          if int i < writers_count (shared s) \<and> i < length (writers_queue (shared s))
          then (case longest_waiting (\<lambda>j. clock s) (writers_queue (shared s)) [i]
                       (max_waiter_id, max_time) of
                  (k, t) \<Rightarrow> Some (s\<lparr>librarian_at := Librarian_searches (Suc i) k t\<rparr>))
          else None
      | _ \<Rightarrow> None)"
| "step1 Librarian_signals s =
     (case librarian_at s of
        Librarian_searches i max_waiter_id max_time \<Rightarrow>
          if int i < writers_count (shared s) then None
          else Some (s\<lparr>writers :=
                          (if max_waiter_id < length (writers s)
                              \<and> writers s ! max_waiter_id = Writer_blocked
                           then (writers s)[max_waiter_id := Writer_woken] else writers s),
                        librarian_at := Librarian_waits\<rparr>)
      | _ \<Rightarrow> None)"

fun run1 :: "action1 list \<Rightarrow> system1 \<Rightarrow> system1 option" where
  "run1 [] s = Some s"
| "run1 (a # as) s = (case step1 a s of None \<Rightarrow> None | Some s' \<Rightarrow> run1 as s')"

text \<open>The threads as \<open>main\<close> creates them, each at the top of its loop.\<close>

definition threads1 :: "globals1 \<Rightarrow> int \<Rightarrow> system1" where
  "threads1 g now =
     \<lparr>shared = g,
      readers = replicate (nat (readers_count g)) Reader_top,
      writers = replicate (nat (writers_count g)) Writer_top,
      librarian_at = Librarian_sleeps,
      clock = now\<rparr>"

subsection \<open>\<open>r_w_2.c\<close>: the threads\<close>

text \<open>
  A reader or writer of \<open>r_w_2.c\<close> (lines 346 to 351 and 362 to 367) is at the top of
  its loop; or blocked on its own condition variable; or woken and about to call
  \<open>read_books\<close> or \<open>write_book\<close>; or inside the library, between the two critical
  sections.

  The librarian (lines 379 to 409) reads \<open>queue[0].kind\<close> in its \<open>switch\<close>, without
  the mutex; stays in the \<open>do ... while\<close> of the case taken until the library is as
  that case needs it (no writer inside for a reader at the head, nobody inside
  otherwise); and then reads \<open>queue[0].id\<close>, again without the mutex, to broadcast the
  condition variable of that index (of the writers in the case of a writer, of the
  readers in the other two cases). \<open>librarian_saw\<close> is the kind the \<open>switch\<close> read
  while the librarian is inside that case, and \<open>None\<close> while it is at the \<open>switch\<close>.
\<close>

datatype agent_pc = Agent_top | Agent_blocked | Agent_woken | Agent_inside

record system2 =
  shared2 :: globals2
  readers2 :: "agent_pc list"
  writers2 :: "agent_pc list"
  librarian_saw :: "int option"
  clock2 :: int

datatype action2 =
    Tick2
  | Reader_waits2 nat
  | Writer_waits2 nat
  | Librarian_reads_head
  | Librarian_broadcasts
  | Reader_enters2 nat
  | Reader_leaves2 nat
  | Writer_enters2 nat
  | Writer_leaves2 nat

text \<open>
  \<open>pthread_cond_broadcast\<close> on the condition variable with index \<open>idn\<close> of an array of
  condition variables: the thread moves on if it is blocked there; an index outside the
  array is \<open>None\<close>.
\<close>

definition wake :: "int \<Rightarrow> agent_pc list \<Rightarrow> agent_pc list option" where
  "wake idn pcs =
     (if 0 \<le> idn \<and> nat idn < length pcs
      then Some (if pcs ! nat idn = Agent_blocked then pcs[nat idn := Agent_woken] else pcs)
      else None)"

definition librarian_reads_head :: "system2 \<Rightarrow> system2 option" where
  "librarian_reads_head s =
     (if librarian_saw s = None \<and> queue (shared2 s) \<noteq> []
      then Some (s\<lparr>librarian_saw := Some (kind (queue (shared2 s) ! 0))\<rparr>)
      else None)"

definition librarian_broadcasts :: "system2 \<Rightarrow> system2 option" where
  "librarian_broadcasts s =
     (let g = shared2 s in
      case librarian_saw s of
        None \<Rightarrow> None
      | Some k \<Rightarrow>
          if k = READER_KIND then
            (if get_writers_in_library_count g = 0
             then map_option (\<lambda>pcs. s\<lparr>readers2 := pcs, librarian_saw := None\<rparr>)
                    (wake (id_no (queue g ! 0)) (readers2 s))
             else None)
          else if k = WRITER_KIND then
            (if get_readers_in_library_count g = 0 \<and> get_writers_in_library_count g = 0
             then map_option (\<lambda>pcs. s\<lparr>writers2 := pcs, librarian_saw := None\<rparr>)
                    (wake (id_no (queue g ! 0)) (writers2 s))
             else None)
          else
            (if get_readers_in_library_count g = 0 \<and> get_writers_in_library_count g = 0
             then map_option (\<lambda>pcs. s\<lparr>readers2 := pcs, librarian_saw := None\<rparr>)
                    (wake (id_no (queue g ! 0)) (readers2 s))
             else None))"

text \<open>
  One step of one thread; \<open>None\<close> when the thread is not at the place the step starts
  from, or is held there, or leaves an array.
\<close>

fun step2 :: "action2 \<Rightarrow> system2 \<Rightarrow> system2 option" where
  "step2 Tick2 s = Some (s\<lparr>clock2 := clock2 s + 1\<rparr>)"
| "step2 (Reader_waits2 i) s =
     (if i < length (readers2 s) \<and> readers2 s ! i = Agent_top
      then Some (s\<lparr>readers2 := (readers2 s)[i := Agent_blocked]\<rparr>)
      else None)"
| "step2 (Writer_waits2 i) s =
     (if i < length (writers2 s) \<and> writers2 s ! i = Agent_top
      then Some (s\<lparr>writers2 := (writers2 s)[i := Agent_blocked]\<rparr>)
      else None)"
| "step2 Librarian_reads_head s = librarian_reads_head s"
| "step2 Librarian_broadcasts s = librarian_broadcasts s"
| "step2 (Reader_enters2 i) s =
     (if i < length (readers2 s) \<and> readers2 s ! i = Agent_woken
      then (case read_books_enter2 (clock2 s) (int i) (shared2 s) of
              None \<Rightarrow> None
            | Some g \<Rightarrow> Some (s\<lparr>shared2 := g, readers2 := (readers2 s)[i := Agent_inside]\<rparr>))
      else None)"
| "step2 (Reader_leaves2 i) s =
     (if i < length (readers2 s) \<and> readers2 s ! i = Agent_inside
      then (case read_books_exit2 (clock2 s) (int i) (shared2 s) of
              None \<Rightarrow> None
            | Some g \<Rightarrow> Some (s\<lparr>shared2 := g, readers2 := (readers2 s)[i := Agent_top]\<rparr>))
      else None)"
| "step2 (Writer_enters2 i) s =
     (if i < length (writers2 s) \<and> writers2 s ! i = Agent_woken
      then (case write_book_enter2 (clock2 s) (int i) (shared2 s) of
              None \<Rightarrow> None
            | Some g \<Rightarrow> Some (s\<lparr>shared2 := g, writers2 := (writers2 s)[i := Agent_inside]\<rparr>))
      else None)"
| "step2 (Writer_leaves2 i) s =
     (if i < length (writers2 s) \<and> writers2 s ! i = Agent_inside
      then (case write_book_exit2 (clock2 s) (int i) (shared2 s) of
              None \<Rightarrow> None
            | Some g \<Rightarrow> Some (s\<lparr>shared2 := g, writers2 := (writers2 s)[i := Agent_top]\<rparr>))
      else None)"

fun run2 :: "action2 list \<Rightarrow> system2 \<Rightarrow> system2 option" where
  "run2 [] s = Some s"
| "run2 (a # as) s = (case step2 a s of None \<Rightarrow> None | Some s' \<Rightarrow> run2 as s')"

definition threads2 :: "globals2 \<Rightarrow> int \<Rightarrow> system2" where
  "threads2 g now =
     \<lparr>shared2 = g,
      readers2 = replicate (nat (readers_count g)) Agent_top,
      writers2 = replicate (nat (writers_count g)) Agent_top,
      librarian_saw = None,
      clock2 = now\<rparr>"

text \<open>A block of memory that reads as zero in every field.\<close>

definition zeroed :: "nat \<Rightarrow> presence" where
  "zeroed i = \<lparr>kind = 0, id_no = 0, timestamp = 0\<rparr>"

text \<open>
  A reader is served: it blocks on its condition variable, the librarian finds it at the
  head, finds the library ready for it and wakes it, and it enters.
\<close>

definition reader_served :: "nat \<Rightarrow> action2 list" where
  "reader_served i =
     [Reader_waits2 i, Librarian_reads_head, Librarian_broadcasts, Reader_enters2 i]"

text \<open>
  A schedule of \<open>r_w_2.c\<close> with 20 readers and 2 writers. Readers 0 to 18 are served
  one after the other; reader 0 goes back to the queue, behind writer 0, and blocks;
  reader 19, now at the head, blocks and is woken by the librarian.
\<close>

definition reader19_woken :: "action2 list" where
  "reader19_woken =
     concat (map reader_served [0..<19]) @ [Reader_leaves2 0, Reader_waits2 0] @
     [Reader_waits2 19, Librarian_reads_head, Librarian_broadcasts]"

text \<open>
  The librarian's next round: it reads the kind of the head, still reader 19; reader 19
  enters, which makes writer 0 the head; the librarian, in the case of a reader, finds no
  writer inside and broadcasts the readers' condition variable with the index
  \<open>queue[0].id\<close>, now the id of writer 0.
\<close>

definition stale_wake :: "action2 list" where
  "stale_wake = [Librarian_reads_head, Reader_enters2 19, Librarian_broadcasts]"

subsection \<open>Notions used in the statements\<close>

text \<open>
  Both arrays of \<open>r_w_2.c\<close> have the length \<open>variables_initializer\<close> gives them; this is
  the range the counting functions and \<open>leave_library\<close> run over.
\<close>

definition allocated2 :: "globals2 \<Rightarrow> bool" where
  "allocated2 g \<longleftrightarrow>
     length (queue g) = nat (writers_count g + readers_count g) \<and>
     length (in_library g) = nat (writers_count g + readers_count g)"

text \<open>An array holds an entry of the given kind and id.\<close>

definition present :: "int \<Rightarrow> int \<Rightarrow> presence list \<Rightarrow> bool" where
  "present knd idn a \<longleftrightarrow> (\<exists>j < length a. kind (a ! j) = knd \<and> id_no (a ! j) = idn)"

text \<open>
  The number of readers, and of writers, in queue and library together is the same in
  two states: for \<open>r_w_1.c\<close> by its four counters, for \<open>r_w_2.c\<close> by its four counting
  functions.
\<close>

definition same_totals1 :: "globals1 \<Rightarrow> globals1 \<Rightarrow> bool" where
  "same_totals1 g h \<longleftrightarrow>
     readers_queue_count h + readers_in_library_count h =
       readers_queue_count g + readers_in_library_count g \<and>
     writers_queue_count h + writers_in_library_count h =
       writers_queue_count g + writers_in_library_count g"

definition same_totals2 :: "globals2 \<Rightarrow> globals2 \<Rightarrow> bool" where
  "same_totals2 g h \<longleftrightarrow>
     get_readers_queue_count h + get_readers_in_library_count h =
       get_readers_queue_count g + get_readers_in_library_count g \<and>
     get_writers_queue_count h + get_writers_in_library_count h =
       get_writers_queue_count g + get_writers_in_library_count g"

text \<open>
  The two sums of \<open>r_w_2.c\<close> (readers, writers), and the kinds and ids of the entries
  of an array that are not empty, in the order of the array.
\<close>

definition totals2 :: "globals2 \<Rightarrow> int \<times> int" where
  "totals2 g =
     (get_readers_queue_count g + get_readers_in_library_count g,
      get_writers_queue_count g + get_writers_in_library_count g)"

definition occupied :: "presence list \<Rightarrow> (int \<times> int) list" where
  "occupied a = map (\<lambda>p. (kind p, id_no p)) (filter (\<lambda>p. kind p \<noteq> NO_KIND) a)"

text \<open>
  The agents an array of \<open>r_w_2.c\<close> holds, as the multiset of the pairs (kind, id)
  of its entries that are not empty; and two states holding the same agents in queue
  and library together.
\<close>

definition agents :: "presence list \<Rightarrow> (int \<times> int) multiset" where
  "agents a = mset (map (\<lambda>p. (kind p, id_no p)) (filter (\<lambda>p. kind p \<noteq> NO_KIND) a))"

definition one_agent :: "presence \<Rightarrow> (int \<times> int) multiset" where
  "one_agent p = (if kind p \<noteq> NO_KIND then {#(kind p, id_no p)#} else {#})"

definition same_agents2 :: "globals2 \<Rightarrow> globals2 \<Rightarrow> bool" where
  "same_agents2 g h \<longleftrightarrow>
     agents (queue h) + agents (in_library h) = agents (queue g) + agents (in_library g)"

text \<open>
  The program started from a command line, with memory that reads as zero and the clock
  at 1000, up to the point where every thread stands at the top of its loop.
\<close>

definition started1 :: "string list \<Rightarrow> system1 option" where
  "started1 argv =
     (case startup1 argv (\<lambda>i. 0) (\<lambda>i. 0) (\<lambda>i. 0) (\<lambda>i. 0) 1000 of
        Inr g \<Rightarrow> Some (threads1 g 1000)
      | Inl e \<Rightarrow> None)"

definition started2 :: "string list \<Rightarrow> system2 option" where
  "started2 argv =
     (case startup2 argv zeroed zeroed (\<lambda>i. 1000) of
        Inr (Some g) \<Rightarrow> Some (threads2 g 1000)
      | _ \<Rightarrow> None)"

text \<open>
  States of \<open>r_w_2.c\<close> with two readers and one writer, used as examples: reader 0 in
  the library with reader 1 at the head of the queue, and the same with the writer at
  the head; and the writer in the library with both readers in the queue.
\<close>

definition example_reader_at_head :: globals2 where
  "example_reader_at_head =
     globals2_start\<lparr>readers_count := 2, writers_count := 1,
       queue := [\<lparr>kind = READER_KIND, id_no = 1, timestamp = 1000\<rparr>,
                 \<lparr>kind = WRITER_KIND, id_no = 0, timestamp = 1000\<rparr>,
                 \<lparr>kind = NO_KIND, id_no = 0, timestamp = 1000\<rparr>],
       in_library := [\<lparr>kind = READER_KIND, id_no = 0, timestamp = 1001\<rparr>,
                      \<lparr>kind = NO_KIND, id_no = 0, timestamp = 0\<rparr>,
                      \<lparr>kind = NO_KIND, id_no = 0, timestamp = 0\<rparr>]\<rparr>"

definition example_writer_at_head :: globals2 where
  "example_writer_at_head =
     globals2_start\<lparr>readers_count := 2, writers_count := 1,
       queue := [\<lparr>kind = WRITER_KIND, id_no = 0, timestamp = 1000\<rparr>,
                 \<lparr>kind = READER_KIND, id_no = 1, timestamp = 1000\<rparr>,
                 \<lparr>kind = NO_KIND, id_no = 0, timestamp = 1000\<rparr>],
       in_library := [\<lparr>kind = READER_KIND, id_no = 0, timestamp = 1001\<rparr>,
                      \<lparr>kind = NO_KIND, id_no = 0, timestamp = 0\<rparr>,
                      \<lparr>kind = NO_KIND, id_no = 0, timestamp = 0\<rparr>]\<rparr>"

definition example_writer_inside :: globals2 where
  "example_writer_inside =
     globals2_start\<lparr>readers_count := 2, writers_count := 1,
       queue := [\<lparr>kind = READER_KIND, id_no = 0, timestamp = 1000\<rparr>,
                 \<lparr>kind = READER_KIND, id_no = 1, timestamp = 1000\<rparr>,
                 \<lparr>kind = NO_KIND, id_no = 0, timestamp = 1000\<rparr>],
       in_library := [\<lparr>kind = WRITER_KIND, id_no = 0, timestamp = 1001\<rparr>,
                      \<lparr>kind = NO_KIND, id_no = 0, timestamp = 0\<rparr>,
                      \<lparr>kind = NO_KIND, id_no = 0, timestamp = 0\<rparr>]\<rparr>"

definition example_library :: globals2 where
  "example_library =
     globals2_start\<lparr>readers_count := 2, writers_count := 1,
       in_library := [\<lparr>kind = READER_KIND, id_no = 1, timestamp = 5\<rparr>,
                      \<lparr>kind = READER_KIND, id_no = 0, timestamp = 6\<rparr>,
                      \<lparr>kind = READER_KIND, id_no = 0, timestamp = 7\<rparr>]\<rparr>"

text \<open>
  A state of \<open>r_w_1.c\<close> with three waiting writers: writer 0 since 100, writers 1 and
  2 since 90.
\<close>

definition example_three_writers :: globals1 where
  "example_three_writers =
     globals1_start\<lparr>writers_count := 3, writers_queue_count := 3,
       writers_in_library := [0, 0, 0], writers_queue := [100, 90, 90]\<rparr>"

section \<open>Theorems\<close>

subsection \<open>Duration bounds\<close>

lemma smod_nonneg_pos:
  fixes r k :: int
  assumes "0 \<le> r" and "0 < k"
  shows "r smod k = r mod k"
  using assms by (simp add: signed_modulo_int_def sgn_if)

lemma get_random_returns:
  assumes "in_int mn" and "in_int mx" and "mn \<le> mx" and "mx - mn < INT_MAX" and "0 \<le> r"
  shows "get_random r mn mx = Inr (r mod (mx - mn + 1) + mn)"
proof -
  let ?k = "mx - mn + 1"
  have k: "0 < ?k" using assms(3) by simp
  have sm: "r smod ?k = r mod ?k" using smod_nonneg_pos [OF assms(5) k] .
  have lo: "0 \<le> r mod ?k" using k by (rule pos_mod_sign)
  have hi: "r mod ?k < ?k" using k by (rule pos_mod_bound)
  have a: "in_int (mx - mn)" using assms by (simp add: in_int_def INT_MIN_def INT_MAX_def)
  have b: "in_int ?k" using assms by (simp add: in_int_def INT_MIN_def INT_MAX_def)
  have c: "in_int (r mod ?k + mn)"
    using assms(1,2) lo hi unfolding in_int_def INT_MIN_def INT_MAX_def by linarith
  show ?thesis using a b c k sm by (simp add: get_random_def Let_def)
qed

text \<open>
  C8. For \<open>min \<le> max\<close>, every value \<open>get_random(min, max)\<close> returns lies in
  \<open>[min, max]\<close>, both ends included; and it does return a value whenever
  \<open>max - min + 1\<close> fits an \<open>int\<close>.
\<close>

theorem get_random_within_bounds:
  assumes "mn \<le> mx" and "0 \<le> r"
  shows "(\<forall>v. get_random r mn mx = Inr v \<longrightarrow> mn \<le> v \<and> v \<le> mx) \<and>
         (in_int mn \<and> in_int mx \<and> mx - mn < INT_MAX \<longrightarrow> (\<exists>v. get_random r mn mx = Inr v))"
proof (intro conjI allI impI)
  fix v
  assume ret: "get_random r mn mx = Inr v"
  let ?k = "mx - mn + 1"
  have k: "0 < ?k" using assms(1) by simp
  have sm: "r smod ?k = r mod ?k" using smod_nonneg_pos [OF assms(2) k] .
  have v: "v = r mod ?k + mn"
    using ret sm k by (simp add: get_random_def Let_def split: if_splits)
  have lo: "0 \<le> r mod ?k" using k by (rule pos_mod_sign)
  have hi: "r mod ?k < ?k" using k by (rule pos_mod_bound)
  show "mn \<le> v" using v lo by linarith
  show "v \<le> mx" using v hi by linarith
next
  assume "in_int mn \<and> in_int mx \<and> mx - mn < INT_MAX"
  then show "\<exists>v. get_random r mn mx = Inr v"
    using get_random_returns [of mn mx r] assms by simp
qed

theorem get_random_within_bounds_witness:
  "(5::int) \<le> 15 \<and> (0::int) \<le> 1234 \<and> get_random 1234 5 15 = Inr 7 \<and> (5::int) \<le> 7 \<and> (7::int) \<le> 15"
proof -
  have ev: "get_random 1234 5 15 = Inr 7"
    by (simp add: get_random_def in_int_def INT_MIN_def INT_MAX_def signed_modulo_int_def)
  have "(5::int) \<le> 7 \<and> (7::int) \<le> 15"
    using get_random_within_bounds [of 5 15 1234] ev by simp
  then show ?thesis using ev by simp
qed

subsection \<open>Command line: duration pairs\<close>

lemma read_reading_times_eq:
  "min_reading_time (read_reading_times argv g) = min (atoi (argv ! 4)) (atoi (argv ! 5))"
  "max_reading_time (read_reading_times argv g) = max (atoi (argv ! 4)) (atoi (argv ! 5))"
  "min_writing_time (read_reading_times argv g) = min_writing_time g"
  "max_writing_time (read_reading_times argv g) = max_writing_time g"
  by (simp_all add: read_reading_times_def Let_def)

lemma read_writing_times_eq:
  "min_writing_time (read_writing_times argv g) = min (atoi (argv ! 6)) (atoi (argv ! 7))"
  "max_writing_time (read_writing_times argv g) = max (atoi (argv ! 6)) (atoi (argv ! 7))"
  "min_reading_time (read_writing_times argv g) = min_reading_time g"
  "max_reading_time (read_writing_times argv g) = max_reading_time g"
  by (simp_all add: read_writing_times_def Let_def)

lemma read_allow_read_times_eq:
  "min_allow_read_time (read_allow_read_times argv g) = min (atoi (argv ! 8)) (atoi (argv ! 9))"
  "max_allow_read_time (read_allow_read_times argv g) = max (atoi (argv ! 8)) (atoi (argv ! 9))"
  "min_reading_time (read_allow_read_times argv g) = min_reading_time g"
  "max_reading_time (read_allow_read_times argv g) = max_reading_time g"
  "min_writing_time (read_allow_read_times argv g) = min_writing_time g"
  "max_writing_time (read_allow_read_times argv g) = max_writing_time g"
  by (simp_all add: read_allow_read_times_def Let_def)

lemmas read_times_eq = read_reading_times_eq read_writing_times_eq read_allow_read_times_eq

lemma args_interpreter1_times:
  assumes "args_interpreter1 argv globals1_start = Inr g"
  shows "min_reading_time g \<le> max_reading_time g \<and>
         min_writing_time g \<le> max_writing_time g \<and>
         min_allow_read_time g \<le> max_allow_read_time g \<and>
         (3 < length argv \<and> argv ! 3 = ''-t'' \<longrightarrow>
            min_reading_time g = min (atoi (argv ! 4)) (atoi (argv ! 5)) \<and>
            max_reading_time g = max (atoi (argv ! 4)) (atoi (argv ! 5)) \<and>
            min_writing_time g = min (atoi (argv ! 6)) (atoi (argv ! 7)) \<and>
            max_writing_time g = max (atoi (argv ! 6)) (atoi (argv ! 7)) \<and>
            min_allow_read_time g = min (atoi (argv ! 8)) (atoi (argv ! 9)) \<and>
            max_allow_read_time g = max (atoi (argv ! 8)) (atoi (argv ! 9)))"
  using assms unfolding args_interpreter1_def Let_def
  by (auto simp: read_times_eq globals1_start_def split: if_splits sum.splits)

lemma args_interpreter2_times:
  assumes "args_interpreter2 argv globals2_start = Inr g"
  shows "min_reading_time g \<le> max_reading_time g \<and>
         min_writing_time g \<le> max_writing_time g \<and>
         (3 < length argv \<and> argv ! 3 = ''-t'' \<longrightarrow>
            min_reading_time g = min (atoi (argv ! 4)) (atoi (argv ! 5)) \<and>
            max_reading_time g = max (atoi (argv ! 4)) (atoi (argv ! 5)) \<and>
            min_writing_time g = min (atoi (argv ! 6)) (atoi (argv ! 7)) \<and>
            max_writing_time g = max (atoi (argv ! 6)) (atoi (argv ! 7)))"
  using assms unfolding args_interpreter2_def Let_def
  by (auto simp: read_times_eq globals2_start_def split: if_splits sum.splits)

lemma atoi_evals:
  "atoi ''abc'' = 0" "atoi ''0'' = 0" "atoi ''1'' = 1" "atoi ''2'' = 2" "atoi ''3'' = 3"
  "atoi ''4'' = 4" "atoi ''5'' = 5" "atoi ''6'' = 6" "atoi ''7'' = 7" "atoi ''8'' = 8"
  "atoi ''9'' = 9" "atoi ''10'' = 10" "atoi ''22'' = 22"
  by (simp_all add: atoi_def isspace_def isdigit_def)

text \<open>
  C6. With the durations given after \<open>-t\<close>, each pair whose first number exceeds the
  second is exchanged, so \<open>args_interpreter\<close> returns with \<open>min \<le> max\<close> for the reading
  and writing times and, in \<open>r_w_1.c\<close>, for the time the librarian lets readers in:
  the effective bounds are the smaller and the larger of the two numbers read. (Without
  \<open>-t\<close> the initial values stay, which are ordered.) The pair 10, 5 becomes 5, 10.
\<close>

theorem bounds_normalised:
  "(args_interpreter1 argv globals1_start = Inr g1 \<longrightarrow>
      min_reading_time g1 \<le> max_reading_time g1 \<and>
      min_writing_time g1 \<le> max_writing_time g1 \<and>
      min_allow_read_time g1 \<le> max_allow_read_time g1 \<and>
      (3 < length argv \<and> argv ! 3 = ''-t'' \<longrightarrow>
         min_reading_time g1 = min (atoi (argv ! 4)) (atoi (argv ! 5)) \<and>
         max_reading_time g1 = max (atoi (argv ! 4)) (atoi (argv ! 5)) \<and>
         min_writing_time g1 = min (atoi (argv ! 6)) (atoi (argv ! 7)) \<and>
         max_writing_time g1 = max (atoi (argv ! 6)) (atoi (argv ! 7)) \<and>
         min_allow_read_time g1 = min (atoi (argv ! 8)) (atoi (argv ! 9)) \<and>
         max_allow_read_time g1 = max (atoi (argv ! 8)) (atoi (argv ! 9)))) \<and>
   (args_interpreter2 argv globals2_start = Inr g2 \<longrightarrow>
      min_reading_time g2 \<le> max_reading_time g2 \<and>
      min_writing_time g2 \<le> max_writing_time g2 \<and>
      (3 < length argv \<and> argv ! 3 = ''-t'' \<longrightarrow>
         min_reading_time g2 = min (atoi (argv ! 4)) (atoi (argv ! 5)) \<and>
         max_reading_time g2 = max (atoi (argv ! 4)) (atoi (argv ! 5)) \<and>
         min_writing_time g2 = min (atoi (argv ! 6)) (atoi (argv ! 7)) \<and>
         max_writing_time g2 = max (atoi (argv ! 6)) (atoi (argv ! 7))))"
  using args_interpreter1_times [of argv g1] args_interpreter2_times [of argv g2]
  by blast

theorem bounds_normalised_witness:
  "(\<exists>g1. args_interpreter1
            [''ReaderAndWriters1'', ''1'', ''2'', ''-t'', ''10'', ''5'', ''3'', ''4'', ''9'', ''8'']
            globals1_start = Inr g1 \<and>
          min_reading_time g1 = 5 \<and> max_reading_time g1 = 10 \<and>
          min_writing_time g1 = 3 \<and> max_writing_time g1 = 4 \<and>
          min_allow_read_time g1 = 8 \<and> max_allow_read_time g1 = 9) \<and>
   (\<exists>g2. args_interpreter2
            [''ReaderAndWriters2'', ''1'', ''2'', ''-t'', ''10'', ''5'', ''7'', ''6'']
            globals2_start = Inr g2 \<and>
          min_reading_time g2 = 5 \<and> max_reading_time g2 = 10 \<and>
          min_writing_time g2 = 6 \<and> max_writing_time g2 = 7)"
proof -
  let ?a1 = "[''ReaderAndWriters1'', ''1'', ''2'', ''-t'', ''10'', ''5'', ''3'', ''4'', ''9'', ''8'']"
  let ?a2 = "[''ReaderAndWriters2'', ''1'', ''2'', ''-t'', ''10'', ''5'', ''7'', ''6'']"
  obtain g1 where g1: "args_interpreter1 ?a1 globals1_start = Inr g1"
    by (simp add: args_interpreter1_def)
  obtain g2 where g2: "args_interpreter2 ?a2 globals2_start = Inr g2"
    by (simp add: args_interpreter2_def)
  have n1: "min_reading_time g1 = 5 \<and> max_reading_time g1 = 10 \<and>
            min_writing_time g1 = 3 \<and> max_writing_time g1 = 4 \<and>
            min_allow_read_time g1 = 8 \<and> max_allow_read_time g1 = 9"
    using bounds_normalised [of ?a1 g1 undefined] g1 by (simp add: atoi_evals)
  have n2: "min_reading_time g2 = 5 \<and> max_reading_time g2 = 10 \<and>
            min_writing_time g2 = 6 \<and> max_writing_time g2 = 7"
    using bounds_normalised [of ?a2 undefined g2] g2 by (simp add: atoi_evals)
  show ?thesis using g1 g2 n1 n2 by blast
qed

subsection \<open>Command line: what is turned away\<close>

lemma args_interpreter1_turns_away:
  assumes "length argv < 3 \<or>
           (3 < length argv \<and> argv ! 3 = ''-t'' \<and> length argv < 10) \<or>
           (3 < length argv \<and> argv ! 3 \<noteq> ''-t'' \<and> argv ! 3 \<noteq> ''-debug'') \<or>
           (10 < length argv \<and> argv ! 3 = ''-t'' \<and> argv ! 10 \<noteq> ''-debug'')"
  shows "args_interpreter1 argv g = Inl usage1"
  using assms unfolding args_interpreter1_def Let_def
  by (auto split: sum.splits)

lemma args_interpreter2_turns_away:
  assumes "length argv < 3 \<or>
           (3 < length argv \<and> argv ! 3 = ''-t'' \<and> length argv < 8) \<or>
           (3 < length argv \<and> argv ! 3 \<noteq> ''-t'' \<and> argv ! 3 \<noteq> ''-debug'') \<or>
           (8 < length argv \<and> argv ! 3 = ''-t'' \<and> argv ! 8 \<noteq> ''-debug'')"
  shows "args_interpreter2 argv g = Inl usage2"
  using assms unfolding args_interpreter2_def Let_def
  by (auto split: sum.splits)

text \<open>
  C7 as stated fails: a count that is no number is read by \<open>atoi\<close> as 0 and the program
  goes on with no writer; and \<open>-bogus\<close> after \<open>-debug\<close> is let through.
\<close>

theorem unparsable_argument_accepted:
  "(\<exists>g. args_interpreter1 [''ReaderAndWriters1'', ''abc'', ''2''] globals1_start = Inr g \<and>
        writers_count g = 0 \<and> readers_count g = 2) \<and>
   (\<exists>g. args_interpreter2 [''ReaderAndWriters2'', ''1'', ''2'', ''-debug'', ''-bogus'']
           globals2_start = Inr g \<and>
        writers_count g = 1 \<and> readers_count g = 2 \<and> is_debug_run g = 1)"
  by (simp add: args_interpreter1_def args_interpreter2_def atoi_evals)

text \<open>
  C7, amended. For every command line that has too few arguments (fewer than the two
  counts, or \<open>-t\<close> followed by fewer than six words, four in \<open>r_w_2.c\<close>) or an unknown
  flag where the program looks for a flag (the word after the two counts is neither
  \<open>-t\<close> nor \<open>-debug\<close>, or the word after \<open>-t\<close> and its six words, four in
  \<open>r_w_2.c\<close>, is not \<open>-debug\<close>), the program prints the usage message and exits with
  the non-zero status \<open>EXIT_FAILURE\<close>. It does so in \<open>args_interpreter\<close>, so that
  \<open>main\<close> reaches neither \<open>variables_initializer\<close> nor \<open>init_queue\<close>: no array
  of the queues or of the library has been allocated, and no mutex, condition variable
  or thread set up. Numeric arguments are not checked.
\<close>

theorem malformed_command_line_exits:
  "(length argv < 3 \<or>
    (3 < length argv \<and> argv ! 3 = ''-t'' \<and> length argv < 10) \<or>
    (3 < length argv \<and> argv ! 3 \<noteq> ''-t'' \<and> argv ! 3 \<noteq> ''-debug'') \<or>
    (10 < length argv \<and> argv ! 3 = ''-t'' \<and> argv ! 10 \<noteq> ''-debug'')
    \<longrightarrow> args_interpreter1 argv g1 = Inl (ERROR_ARGUMENTS_MESSAGE1, EXIT_FAILURE) \<and>
        startup1 argv mwl mwq mrl mrq now = Inl (ERROR_ARGUMENTS_MESSAGE1, EXIT_FAILURE)) \<and>
   (length argv < 3 \<or>
    (3 < length argv \<and> argv ! 3 = ''-t'' \<and> length argv < 8) \<or>
    (3 < length argv \<and> argv ! 3 \<noteq> ''-t'' \<and> argv ! 3 \<noteq> ''-debug'') \<or>
    (8 < length argv \<and> argv ! 3 = ''-t'' \<and> argv ! 8 \<noteq> ''-debug'')
    \<longrightarrow> args_interpreter2 argv g2 = Inl (ERROR_ARGUMENTS_MESSAGE2, EXIT_FAILURE) \<and>
        startup2 argv mq ml clk = Inl (ERROR_ARGUMENTS_MESSAGE2, EXIT_FAILURE)) \<and>
   EXIT_FAILURE \<noteq> 0"
proof -
  have "args_interpreter1 argv g1 = Inl (ERROR_ARGUMENTS_MESSAGE1, EXIT_FAILURE) \<and>
        startup1 argv mwl mwq mrl mrq now = Inl (ERROR_ARGUMENTS_MESSAGE1, EXIT_FAILURE)"
    if h: "length argv < 3 \<or>
           (3 < length argv \<and> argv ! 3 = ''-t'' \<and> length argv < 10) \<or>
           (3 < length argv \<and> argv ! 3 \<noteq> ''-t'' \<and> argv ! 3 \<noteq> ''-debug'') \<or>
           (10 < length argv \<and> argv ! 3 = ''-t'' \<and> argv ! 10 \<noteq> ''-debug'')"
    using args_interpreter1_turns_away [OF h, of g1]
      args_interpreter1_turns_away [OF h, of globals1_start]
    by (simp add: startup1_def usage1_def)
  moreover
  have "args_interpreter2 argv g2 = Inl (ERROR_ARGUMENTS_MESSAGE2, EXIT_FAILURE) \<and>
        startup2 argv mq ml clk = Inl (ERROR_ARGUMENTS_MESSAGE2, EXIT_FAILURE)"
    if h: "length argv < 3 \<or>
           (3 < length argv \<and> argv ! 3 = ''-t'' \<and> length argv < 8) \<or>
           (3 < length argv \<and> argv ! 3 \<noteq> ''-t'' \<and> argv ! 3 \<noteq> ''-debug'') \<or>
           (8 < length argv \<and> argv ! 3 = ''-t'' \<and> argv ! 8 \<noteq> ''-debug'')"
    using args_interpreter2_turns_away [OF h, of g2]
      args_interpreter2_turns_away [OF h, of globals2_start]
    by (simp add: startup2_def usage2_def)
  moreover have "EXIT_FAILURE \<noteq> 0" by (simp add: EXIT_FAILURE_def)
  ultimately show ?thesis by blast
qed

theorem malformed_command_line_exits_witness:
  "length [''ReaderAndWriters1'', ''1''] < 3 \<and>
   startup1 [''ReaderAndWriters1'', ''1''] (\<lambda>i. 0) (\<lambda>i. 0) (\<lambda>i. 0) (\<lambda>i. 0) 1000 =
     Inl (ERROR_ARGUMENTS_MESSAGE1, EXIT_FAILURE) \<and>
   startup1 [''ReaderAndWriters1'', ''1'', ''2'', ''-t'', ''1'', ''2'', ''3'', ''4'', ''5'']
       (\<lambda>i. 0) (\<lambda>i. 0) (\<lambda>i. 0) (\<lambda>i. 0) 1000 =
     Inl (ERROR_ARGUMENTS_MESSAGE1, EXIT_FAILURE) \<and>
   startup1 [''ReaderAndWriters1'', ''1'', ''2'', ''-t'', ''1'', ''2'', ''3'', ''4'', ''5'', ''6'',
             ''-x'']
       (\<lambda>i. 0) (\<lambda>i. 0) (\<lambda>i. 0) (\<lambda>i. 0) 1000 =
     Inl (ERROR_ARGUMENTS_MESSAGE1, EXIT_FAILURE) \<and>
   startup2 [''ReaderAndWriters2'', ''1'', ''2'', ''-x''] zeroed zeroed (\<lambda>i. 1000) =
     Inl (ERROR_ARGUMENTS_MESSAGE2, EXIT_FAILURE) \<and>
   startup2 [''ReaderAndWriters2'', ''1'', ''2'', ''-t'', ''1'', ''2'', ''3'', ''4'', ''-x'']
       zeroed zeroed (\<lambda>i. 1000) =
     Inl (ERROR_ARGUMENTS_MESSAGE2, EXIT_FAILURE)"
  using
    malformed_command_line_exits [of "[''ReaderAndWriters1'', ''1'']"
      globals1_start "\<lambda>i. 0" "\<lambda>i. 0" "\<lambda>i. 0" "\<lambda>i. 0" 1000 globals2_start zeroed zeroed "\<lambda>i. 1000"]
    malformed_command_line_exits
      [of "[''ReaderAndWriters1'', ''1'', ''2'', ''-t'', ''1'', ''2'', ''3'', ''4'', ''5'']"
      globals1_start "\<lambda>i. 0" "\<lambda>i. 0" "\<lambda>i. 0" "\<lambda>i. 0" 1000 globals2_start zeroed zeroed "\<lambda>i. 1000"]
    malformed_command_line_exits
      [of "[''ReaderAndWriters1'', ''1'', ''2'', ''-t'', ''1'', ''2'', ''3'', ''4'', ''5'', ''6'', ''-x'']"
      globals1_start "\<lambda>i. 0" "\<lambda>i. 0" "\<lambda>i. 0" "\<lambda>i. 0" 1000 globals2_start zeroed zeroed "\<lambda>i. 1000"]
    malformed_command_line_exits [of "[''ReaderAndWriters2'', ''1'', ''2'', ''-x'']"
      globals1_start "\<lambda>i. 0" "\<lambda>i. 0" "\<lambda>i. 0" "\<lambda>i. 0" 1000 globals2_start zeroed zeroed "\<lambda>i. 1000"]
    malformed_command_line_exits
      [of "[''ReaderAndWriters2'', ''1'', ''2'', ''-t'', ''1'', ''2'', ''3'', ''4'', ''-x'']"
      globals1_start "\<lambda>i. 0" "\<lambda>i. 0" "\<lambda>i. 0" "\<lambda>i. 0" 1000 globals2_start zeroed zeroed "\<lambda>i. 1000"]
  by simp

subsection \<open>\<open>r_w_2.c\<close>: searching the arrays\<close>

lemma kinds_distinct:
  "READER_KIND \<noteq> NO_KIND" "WRITER_KIND \<noteq> NO_KIND" "READER_KIND \<noteq> WRITER_KIND"
  "WRITER_KIND \<noteq> READER_KIND"
  by (simp_all add: READER_KIND_def WRITER_KIND_def NO_KIND_def)

lemma first_empty_position_finds:
  assumes "p \<le> m" and "m < length a" and "kind (a ! m) = NO_KIND"
    and "\<forall>j. p \<le> j \<and> j < m \<longrightarrow> kind (a ! j) \<noteq> NO_KIND"
  shows "first_empty_position a p = Some m"
  using assms
proof (induction a p rule: first_empty_position.induct)
  case (1 a p)
  have pl: "p < length a" using "1.prems"(1,2) by simp
  show ?case
  proof (cases "p = m")
    case True
    then show ?thesis using pl "1.prems"(3) by (subst first_empty_position.simps) simp
  next
    case False
    then have pm: "p < m" using "1.prems"(1) by simp
    have ne: "kind (a ! p) \<noteq> NO_KIND" using "1.prems"(4) pm by simp
    have "first_empty_position a (Suc p) = Some m"
      using "1.IH" [OF pl ne] pm "1.prems"(2,3,4) by simp
    then show ?thesis using pl ne by (subst first_empty_position.simps) simp
  qed
qed

lemma first_empty_position_sound:
  "first_empty_position a p = Some m \<Longrightarrow>
     p \<le> m \<and> m < length a \<and> kind (a ! m) = NO_KIND \<and>
     (\<forall>j. p \<le> j \<and> j < m \<longrightarrow> kind (a ! j) \<noteq> NO_KIND)"
proof (induction a p rule: first_empty_position.induct)
  case (1 a p)
  show ?case
  proof (cases "p < length a \<and> kind (a ! p) \<noteq> NO_KIND")
    case True
    then have "first_empty_position a (Suc p) = Some m"
      using "1.prems" by (subst (asm) first_empty_position.simps) simp
    then have ih: "Suc p \<le> m \<and> m < length a \<and> kind (a ! m) = NO_KIND \<and>
       (\<forall>j. Suc p \<le> j \<and> j < m \<longrightarrow> kind (a ! j) \<noteq> NO_KIND)"
      using "1.IH" True by simp
    have "\<forall>j. p \<le> j \<and> j < m \<longrightarrow> kind (a ! j) \<noteq> NO_KIND"
    proof (intro allI impI)
      fix j assume "p \<le> j \<and> j < m"
      then show "kind (a ! j) \<noteq> NO_KIND"
        using ih True by (cases "j = p") auto
    qed
    then show ?thesis using ih by simp
  next
    case False
    then show ?thesis
      using "1.prems" by (subst (asm) first_empty_position.simps) (auto split: if_splits)
  qed
qed

subsection \<open>\<open>leave_library\<close>\<close>

lemma leave_library_loop_no_match:
  assumes "n \<le> length a"
    and "\<forall>j. i \<le> j \<and> j < n \<longrightarrow> \<not> (kind (a ! j) = knd \<and> id_no (a ! j) = idn)"
  shows "leave_library_loop knd idn n a i = Some a"
  using assms
proof (induction knd idn n a i rule: leave_library_loop.induct)
  case (1 knd idn n a i)
  show ?case
  proof (cases "i < n")
    case True
    then have il: "i < length a" using "1.prems"(1) by simp
    have nm: "\<not> (kind (a ! i) = knd \<and> id_no (a ! i) = idn)"
      using "1.prems"(2) True by simp
    then have c: "(kind (a ! i) = knd \<and> id_no (a ! i) = idn) = False" by simp
    have "leave_library_loop knd idn n a (Suc i) = Some a"
      using "1.IH" [OF True il nm "1.prems"(1)] "1.prems"(2) by simp
    then show ?thesis using True il by (subst leave_library_loop.simps) (simp add: c)
  next
    case False
    then show ?thesis by (subst leave_library_loop.simps) simp
  qed
qed

lemma leave_library_loop_first_match:
  assumes "n \<le> length a" and "i \<le> j" and "j < n"
    and "kind (a ! j) = knd \<and> id_no (a ! j) = idn"
    and "\<forall>m. i \<le> m \<and> m < j \<longrightarrow> \<not> (kind (a ! m) = knd \<and> id_no (a ! m) = idn)"
  shows "leave_library_loop knd idn n a i = Some (a[j := (a ! j)\<lparr>kind := NO_KIND\<rparr>])"
  using assms
proof (induction knd idn n a i rule: leave_library_loop.induct)
  case (1 knd idn n a i)
  have lt: "i < n" using "1.prems"(2,3) by simp
  have il: "i < length a" using lt "1.prems"(1) by simp
  show ?case
  proof (cases "i = j")
    case True
    then show ?thesis using lt il "1.prems"(4) by (subst leave_library_loop.simps) simp
  next
    case False
    then have ij: "i < j" using "1.prems"(2) by simp
    have nm: "\<not> (kind (a ! i) = knd \<and> id_no (a ! i) = idn)"
      using "1.prems"(5) ij by simp
    then have c: "(kind (a ! i) = knd \<and> id_no (a ! i) = idn) = False" by simp
    have "leave_library_loop knd idn n a (Suc i) = Some (a[j := (a ! j)\<lparr>kind := NO_KIND\<rparr>])"
      using "1.IH" [OF lt il nm "1.prems"(1)] ij "1.prems"(3,4,5) by simp
    then show ?thesis using lt il by (subst leave_library_loop.simps) (simp add: c)
  qed
qed

lemma leave_library_loop_sound:
  assumes "leave_library_loop knd idn n a i = Some a'"
  shows "(a' = a \<and> (\<forall>j. i \<le> j \<and> j < n \<longrightarrow> \<not> (kind (a ! j) = knd \<and> id_no (a ! j) = idn))) \<or>
         (\<exists>j. i \<le> j \<and> j < n \<and> j < length a \<and> kind (a ! j) = knd \<and> id_no (a ! j) = idn \<and>
              a' = a[j := (a ! j)\<lparr>kind := NO_KIND\<rparr>])"
  using assms
proof (induction knd idn n a i rule: leave_library_loop.induct)
  case (1 knd idn n a i)
  show ?case
  proof (cases "i < n")
    case False
    then have "a' = a" using "1.prems" by (subst (asm) leave_library_loop.simps) simp
    then show ?thesis using False by simp
  next
    case True
    then have il: "i < length a"
      using "1.prems" by (subst (asm) leave_library_loop.simps) (simp split: if_splits)
    show ?thesis
    proof (cases "kind (a ! i) = knd \<and> id_no (a ! i) = idn")
      case m: True
      then have "a' = a[i := (a ! i)\<lparr>kind := NO_KIND\<rparr>]"
        using "1.prems" True il by (subst (asm) leave_library_loop.simps) simp
      then show ?thesis using True il m by blast
    next
      case nm: False
      then have c: "(kind (a ! i) = knd \<and> id_no (a ! i) = idn) = False" by simp
      have r: "leave_library_loop knd idn n a (Suc i) = Some a'"
        using "1.prems" True il by (subst (asm) leave_library_loop.simps) (simp add: c)
      from "1.IH" [OF True il nm r]
      show ?thesis
      proof
        assume h: "a' = a \<and> (\<forall>j. Suc i \<le> j \<and> j < n \<longrightarrow> \<not> (kind (a ! j) = knd \<and> id_no (a ! j) = idn))"
        have "\<forall>j. i \<le> j \<and> j < n \<longrightarrow> \<not> (kind (a ! j) = knd \<and> id_no (a ! j) = idn)"
        proof (intro allI impI)
          fix j assume "i \<le> j \<and> j < n"
          then show "\<not> (kind (a ! j) = knd \<and> id_no (a ! j) = idn)"
            using h nm by (cases "j = i") auto
        qed
        then show ?thesis using h by simp
      next
        assume "\<exists>j. Suc i \<le> j \<and> j < n \<and> j < length a \<and> kind (a ! j) = knd \<and> id_no (a ! j) = idn \<and>
              a' = a[j := (a ! j)\<lparr>kind := NO_KIND\<rparr>]"
        then obtain j where "Suc i \<le> j" "j < n" "j < length a" "kind (a ! j) = knd \<and> id_no (a ! j) = idn"
          "a' = a[j := (a ! j)\<lparr>kind := NO_KIND\<rparr>]" by blast
        then have "i \<le> j \<and> j < n \<and> j < length a \<and> kind (a ! j) = knd \<and> id_no (a ! j) = idn \<and>
              a' = a[j := (a ! j)\<lparr>kind := NO_KIND\<rparr>]" by simp
        then show ?thesis by blast
      qed
    qed
  qed
qed

text \<open>
  C10. \<open>leave_library(kind, id)\<close> on the library as allocated: if no entry has this
  kind and id, nothing changes; otherwise the first such entry, and only it, has its
  kind set to \<open>NO_KIND\<close>, keeping its id and time stamp, and every other entry, the
  queue and all other globals stay as they were.
\<close>

theorem leave_library_frame:
  assumes "length (in_library g) = nat (readers_count g + writers_count g)"
  shows
    "((\<forall>j < length (in_library g).
         \<not> (kind (in_library g ! j) = knd \<and> id_no (in_library g ! j) = idn)) \<longrightarrow>
       leave_library knd idn g = Some g) \<and>
     (\<forall>j < length (in_library g).
         kind (in_library g ! j) = knd \<and> id_no (in_library g ! j) = idn \<and>
         (\<forall>m < j. \<not> (kind (in_library g ! m) = knd \<and> id_no (in_library g ! m) = idn)) \<longrightarrow>
         leave_library knd idn g =
           Some (g\<lparr>in_library := (in_library g)[j := (in_library g ! j)\<lparr>kind := NO_KIND\<rparr>]\<rparr>))"
proof (intro conjI allI impI)
  assume "\<forall>j < length (in_library g).
            \<not> (kind (in_library g ! j) = knd \<and> id_no (in_library g ! j) = idn)"
  then have "leave_library_loop knd idn (nat (readers_count g + writers_count g)) (in_library g) 0
               = Some (in_library g)"
    using assms by (intro leave_library_loop_no_match) simp_all
  then show "leave_library knd idn g = Some g" by (simp add: leave_library_def)
next
  fix j
  assume j: "j < length (in_library g)"
    and m: "kind (in_library g ! j) = knd \<and> id_no (in_library g ! j) = idn \<and>
         (\<forall>m < j. \<not> (kind (in_library g ! m) = knd \<and> id_no (in_library g ! m) = idn))"
  have "leave_library_loop knd idn (nat (readers_count g + writers_count g)) (in_library g) 0
          = Some ((in_library g)[j := (in_library g ! j)\<lparr>kind := NO_KIND\<rparr>])"
    using assms j m by (intro leave_library_loop_first_match) simp_all
  then show "leave_library knd idn g =
           Some (g\<lparr>in_library := (in_library g)[j := (in_library g ! j)\<lparr>kind := NO_KIND\<rparr>]\<rparr>)"
    by (simp add: leave_library_def)
qed


theorem leave_library_frame_witness:
  "length (in_library example_library) =
     nat (readers_count example_library + writers_count example_library) \<and>
   leave_library READER_KIND 0 example_library =
     Some (example_library\<lparr>in_library :=
             [\<lparr>kind = READER_KIND, id_no = 1, timestamp = 5\<rparr>,
              \<lparr>kind = NO_KIND, id_no = 0, timestamp = 6\<rparr>,
              \<lparr>kind = READER_KIND, id_no = 0, timestamp = 7\<rparr>]\<rparr>) \<and>
   leave_library WRITER_KIND 0 example_library = Some example_library"
proof -
  have len: "length (in_library example_library) =
     nat (readers_count example_library + writers_count example_library)"
    by (simp add: example_library_def globals2_start_def)
  have hit: "leave_library READER_KIND 0 example_library =
     Some (example_library\<lparr>in_library :=
             (in_library example_library)
               [1 := (in_library example_library ! 1)\<lparr>kind := NO_KIND\<rparr>]\<rparr>)"
    using leave_library_frame [OF len, of READER_KIND 0, THEN conjunct2, rule_format, of 1]
    by (simp add: example_library_def kinds_distinct)
  have miss: "leave_library WRITER_KIND 0 example_library = Some example_library"
    using leave_library_frame [OF len, of WRITER_KIND 0, THEN conjunct1]
    by (simp add: example_library_def kinds_distinct less_Suc_eq)
  show ?thesis using len hit miss by (simp add: example_library_def)
qed

subsection \<open>\<open>init_queue\<close> of \<open>r_w_2.c\<close>\<close>

lemma init_queue_loop_result:
  assumes "knd \<noteq> NO_KIND" and "k \<le> m" and "m \<le> length (queue g)"
    and "m \<le> length (in_library g)"
    and "\<forall>j < k. kind (queue g ! j) \<noteq> NO_KIND"
    and "\<forall>j. k \<le> j \<and> j < m \<longrightarrow> kind (queue g ! j) = NO_KIND"
  shows "\<exists>g'. init_queue_loop clk knd off [k..<m] g = Some g' \<and>
           queue g' = take k (queue g) @ map (\<lambda>i. \<lparr>kind = knd, id_no = int i - off, timestamp = clk i\<rparr>) [k..<m] @ drop m (queue g) \<and>
           length (in_library g') = length (in_library g) \<and>
           (\<forall>j < length (in_library g).
              in_library g' ! j =
                (if k \<le> j \<and> j < m then (in_library g ! j)\<lparr>kind := NO_KIND\<rparr> else in_library g ! j)) \<and>
           readers_count g' = readers_count g \<and> writers_count g' = writers_count g"
  using assms
proof (induction "m - k" arbitrary: k g)
  case 0
  then have "k = m" by simp
  then show ?case by simp
next
  case (Suc d)
  then have km: "k < m" by simp
  let ?e = "\<lparr>kind = knd, id_no = int k - off, timestamp = clk k\<rparr>"
  let ?g1 = "g\<lparr>queue := (queue g)[k := ?e]\<rparr>"
  let ?g2 = "?g1\<lparr>in_library := (in_library g)[k := (in_library g ! k)\<lparr>kind := NO_KIND\<rparr>]\<rparr>"
  have kq: "k < length (queue g)" using km Suc.prems(3) by simp
  have kl: "k < length (in_library g)" using km Suc.prems(4) by simp
  have fe: "first_empty_position (queue g) 0 = Some k"
    using Suc.prems(5,6) km kq by (intro first_empty_position_finds) simp_all
  have gq: "get_to_queue (clk k) knd (int k - off) g = Some ?g1"
    using fe by (simp add: get_to_queue_def)
  have unf: "init_queue_loop clk knd off [k..<m] g = init_queue_loop clk knd off [Suc k..<m] ?g2"
    using km gq kl by (simp add: upt_conv_Cons)
  have d: "d = m - Suc k" using Suc.hyps(2) by simp
  have p5: "\<forall>j < Suc k. kind (queue ?g2 ! j) \<noteq> NO_KIND"
    using Suc.prems(1,5) kq by (auto simp: nth_list_update)
  have p6: "\<forall>j. Suc k \<le> j \<and> j < m \<longrightarrow> kind (queue ?g2 ! j) = NO_KIND"
    using Suc.prems(6) by (auto simp: nth_list_update)
  obtain g' where r: "init_queue_loop clk knd off [Suc k..<m] ?g2 = Some g'"
      and q: "queue g' = take (Suc k) (queue ?g2) @ map (\<lambda>i. \<lparr>kind = knd, id_no = int i - off, timestamp = clk i\<rparr>) [Suc k..<m] @ drop m (queue ?g2)"
      and ll: "length (in_library g') = length (in_library ?g2)"
      and lib: "\<forall>j < length (in_library ?g2).
              in_library g' ! j =
                (if Suc k \<le> j \<and> j < m then (in_library ?g2 ! j)\<lparr>kind := NO_KIND\<rparr> else in_library ?g2 ! j)"
      and cnt: "readers_count g' = readers_count ?g2 \<and> writers_count g' = writers_count ?g2"
    using Suc.hyps(1) [OF d Suc.prems(1) _ _ _ p5 p6] km Suc.prems(3,4) by auto
  have q': "queue g' = take k (queue g) @ map (\<lambda>i. \<lparr>kind = knd, id_no = int i - off, timestamp = clk i\<rparr>) [k..<m] @ drop m (queue g)"
    using q km kq by (simp add: take_Suc_conv_app_nth upt_conv_Cons)
  have lib': "\<forall>j < length (in_library g).
              in_library g' ! j =
                (if k \<le> j \<and> j < m then (in_library g ! j)\<lparr>kind := NO_KIND\<rparr> else in_library g ! j)"
    using lib kl km by (auto simp: nth_list_update)
  show ?case using unf r q' ll lib' cnt by simp
qed

text \<open>
  What \<open>init_queue\<close> does on cleared memory. For all counts \<open>R\<close> of readers and \<open>W\<close>
  of writers (not negative), when the block \<open>malloc\<close> returned for the queue reads as
  \<open>NO_KIND\<close> in each of its \<open>R + W\<close> elements, \<open>init_queue\<close> returns with the queue
  holding readers 0 to \<open>R - 1\<close> in this order and then writers 0 to \<open>W - 1\<close> in this
  order, each with the clock's reading of its round, and with every element of
  \<open>in_library\<close> empty, whatever that block held. With 2 readers and 1 writer the queue
  is reader 0, reader 1, writer 0.
\<close>

theorem init_queue_layout:
  assumes "0 \<le> readers_count g" and "0 \<le> writers_count g"
    and "\<forall>i < nat (writers_count g + readers_count g). kind (mq i) = NO_KIND"
  shows "\<exists>g'. init_queue2 clk (variables_initializer2 mq ml g) = Some g' \<and>
           queue g' =
             map (\<lambda>i. \<lparr>kind = READER_KIND, id_no = int i, timestamp = clk i\<rparr>)
               [0..<nat (readers_count g)] @
             map (\<lambda>j. \<lparr>kind = WRITER_KIND, id_no = int j,
                        timestamp = clk (nat (readers_count g) + j)\<rparr>)
               [0..<nat (writers_count g)] \<and>
           length (in_library g') = nat (writers_count g + readers_count g) \<and>
           (\<forall>p \<in> set (in_library g'). kind p = NO_KIND)"
proof -
  let ?r = "nat (readers_count g)"
  let ?w = "nat (writers_count g)"
  let ?n = "nat (writers_count g + readers_count g)"
  let ?g0 = "variables_initializer2 mq ml g"
  have n: "?n = ?r + ?w" using assms(1,2) by (simp add: nat_add_distrib)
  have lq: "length (queue ?g0) = ?n" and ll: "length (in_library ?g0) = ?n"
    and rc0: "readers_count ?g0 = readers_count g" and wc0: "writers_count ?g0 = writers_count g"
    by (simp_all add: variables_initializer2_def)
  have q0: "\<forall>j < ?n. kind (queue ?g0 ! j) = NO_KIND"
    using assms(3) by (simp add: variables_initializer2_def)
  obtain g1 where r1: "init_queue_loop clk READER_KIND 0 [0..<?r] ?g0 = Some g1"
    and q1: "queue g1 = take 0 (queue ?g0) @
               map (\<lambda>i. \<lparr>kind = READER_KIND, id_no = int i - 0, timestamp = clk i\<rparr>) [0..<?r] @
               drop ?r (queue ?g0)"
    and ll1: "length (in_library g1) = length (in_library ?g0)"
    and lib1: "\<forall>j < length (in_library ?g0). in_library g1 ! j =
                 (if 0 \<le> j \<and> j < ?r then (in_library ?g0 ! j)\<lparr>kind := NO_KIND\<rparr>
                  else in_library ?g0 ! j)"
    and c1: "readers_count g1 = readers_count ?g0 \<and> writers_count g1 = writers_count ?g0"
    using init_queue_loop_result [of READER_KIND 0 ?r ?g0 clk 0] q0 lq ll n
    by (auto simp: kinds_distinct)
  have lq1: "length (queue g1) = ?n" using q1 lq n by simp
  have p5: "\<forall>j < ?r. kind (queue g1 ! j) \<noteq> NO_KIND"
    using q1 by (simp add: nth_append kinds_distinct)
  have p6: "\<forall>j. ?r \<le> j \<and> j < ?n \<longrightarrow> kind (queue g1 ! j) = NO_KIND"
    using q1 q0 lq n by (auto simp: nth_append)
  obtain g2 where r2: "init_queue_loop clk WRITER_KIND (readers_count g) [?r..<?n] g1 = Some g2"
    and q2: "queue g2 = take ?r (queue g1) @
               map (\<lambda>i. \<lparr>kind = WRITER_KIND, id_no = int i - readers_count g, timestamp = clk i\<rparr>)
                 [?r..<?n] @
               drop ?n (queue g1)"
    and ll2: "length (in_library g2) = length (in_library g1)"
    and lib2: "\<forall>j < length (in_library g1). in_library g2 ! j =
                 (if ?r \<le> j \<and> j < ?n then (in_library g1 ! j)\<lparr>kind := NO_KIND\<rparr>
                  else in_library g1 ! j)"
    using init_queue_loop_result [of WRITER_KIND ?r ?n g1 clk "readers_count g"] p5 p6 lq1 ll1 ll n
    by (auto simp: kinds_distinct)
  have run: "init_queue2 clk ?g0 = Some g2"
    using assms(1,2) r1 r2 by (simp add: init_queue2_def rc0 wc0)
  have w: "map (\<lambda>i. \<lparr>kind = WRITER_KIND, id_no = int i - readers_count g, timestamp = clk i\<rparr>) [?r..<?n]
           = map (\<lambda>j. \<lparr>kind = WRITER_KIND, id_no = int j, timestamp = clk (?r + j)\<rparr>) [0..<?w]"
  proof -
    have "[?r..<?n] = map (\<lambda>j. j + ?r) [0..<?w]" using n by (simp add: map_add_upt add.commute)
    then show ?thesis using assms(1) by (simp add: add.commute)
  qed
  have q: "queue g2 =
             map (\<lambda>i. \<lparr>kind = READER_KIND, id_no = int i, timestamp = clk i\<rparr>) [0..<?r] @
             map (\<lambda>j. \<lparr>kind = WRITER_KIND, id_no = int j, timestamp = clk (?r + j)\<rparr>) [0..<?w]"
    using q2 q1 lq1 w by simp
  have len: "length (in_library g2) = ?n" using ll2 ll1 ll by simp
  have "\<forall>j < ?n. kind (in_library g2 ! j) = NO_KIND"
    using lib1 lib2 ll ll1 by auto
  then have empty: "\<forall>p \<in> set (in_library g2). kind p = NO_KIND"
    using len by (auto simp: in_set_conv_nth)
  show ?thesis using run q len empty by blast
qed


theorem init_queue_layout_witness:
  "\<exists>g'. init_queue2 (\<lambda>i. 1000)
           (variables_initializer2 zeroed (\<lambda>i. \<lparr>kind = 7, id_no = 8, timestamp = 9\<rparr>)
              (globals2_start\<lparr>writers_count := 1, readers_count := 2\<rparr>)) = Some g' \<and>
         queue g' = [\<lparr>kind = READER_KIND, id_no = 0, timestamp = 1000\<rparr>,
                     \<lparr>kind = READER_KIND, id_no = 1, timestamp = 1000\<rparr>,
                     \<lparr>kind = WRITER_KIND, id_no = 0, timestamp = 1000\<rparr>] \<and>
         length (in_library g') = 3 \<and>
         (\<forall>p \<in> set (in_library g'). kind p = NO_KIND)"
  using init_queue_layout [of "globals2_start\<lparr>writers_count := 1, readers_count := 2\<rparr>" zeroed
      "\<lambda>i. 1000" "\<lambda>i. \<lparr>kind = 7, id_no = 8, timestamp = 9\<rparr>"]
  by (simp add: zeroed_def NO_KIND_def upt_conv_Cons numeral_2_eq_2)

text \<open>
  C9 fails on the code. \<open>init_queue\<close> clears \<open>in_library[i].kind\<close> but not
  \<open>queue[i].kind\<close>, and \<open>get_to_queue\<close> looks for the first element of the queue whose
  kind is \<open>NO_KIND\<close>: the layout depends on what \<open>malloc\<close> returned. Started with one
  reader on a block filled with the byte \<open>0xFE\<close> (as the C library fills fresh blocks
  when told to perturb them), no element reads as empty and the search runs past the
  array.
\<close>

theorem init_queue_on_filled_memory:
  "init_queue2 clk
     (variables_initializer2
        (\<lambda>i. \<lparr>kind = - 16843010, id_no = - 16843010, timestamp = - 72340172838076674\<rparr>) ml
        (globals2_start\<lparr>writers_count := 0, readers_count := 1\<rparr>)) = None"
  by (simp add: init_queue2_def variables_initializer2_def globals2_start_def get_to_queue_def
      first_empty_position.simps NO_KIND_def)

subsection \<open>Counting, and what the moves do to the counts\<close>

lemma count_kind_take:
  "n \<le> length a \<Longrightarrow> count_kind k n a = int (length (filter (\<lambda>p. kind p = k) (take n a)))"
proof (induction n)
  case 0
  then show ?case by (simp add: count_kind_def)
next
  case (Suc n)
  then have n: "n < length a" by simp
  have "count_kind k (Suc n) a =
          (if kind (a ! n) = k then count_kind k n a + 1 else count_kind k n a)"
    by (simp add: count_kind_def)
  then show ?case using Suc.IH n by (simp add: take_Suc_conv_app_nth)
qed

lemma count_kind_filter:
  "count_kind k (length a) a = int (length (filter (\<lambda>p. kind p = k) a))"
  using count_kind_take [of "length a" a k] by simp

lemma filter_length_update:
  assumes "p < length a"
  shows "length (filter P (a[p := x])) + (if P (a ! p) then 1 else 0) =
         length (filter P a) + (if P x then 1 else 0)"
proof -
  have a: "a = take p a @ a ! p # drop (Suc p) a" using assms by (rule id_take_nth_drop)
  have u: "a[p := x] = take p a @ x # drop (Suc p) a" using assms by (rule upd_conv_take_nth_drop)
  have "length (filter P a) =
          length (filter P (take p a)) + (if P (a ! p) then 1 else 0) + length (filter P (drop (Suc p) a))"
    by (subst a) simp
  moreover have "length (filter P (a[p := x])) =
          length (filter P (take p a)) + (if P x then 1 else 0) + length (filter P (drop (Suc p) a))"
    by (subst u) simp
  ultimately show ?thesis by simp
qed

lemma count_kind_update:
  assumes "p < length a"
  shows "count_kind k (length a) (a[p := x]) + (if kind (a ! p) = k then 1 else 0) =
         count_kind k (length a) a + (if kind x = k then 1 else 0)"
proof -
  let ?P = "\<lambda>p. kind p = k"
  have c: "count_kind k (length a) (a[p := x]) = int (length (filter ?P (a[p := x])))"
    using count_kind_filter [of k "a[p := x]"] by simp
  have "int (length (filter ?P (a[p := x])) + (if ?P (a ! p) then 1 else 0)) =
        int (length (filter ?P a) + (if ?P x then 1 else 0))"
    using filter_length_update [OF assms, of ?P x] by simp
  then have "int (length (filter ?P (a[p := x]))) + (if ?P (a ! p) then 1 else 0) =
        int (length (filter ?P a)) + (if ?P x then 1 else 0)"
    by (simp split: if_splits)
  then show ?thesis using c by (simp add: count_kind_filter)
qed

lemma leave_queue_loop_shape:
  "leave_queue_loop q i = Some (q', m) \<Longrightarrow>
     i \<le> m \<and> Suc m < length q \<and>
     q' = take i q @ take (m - i) (drop (Suc i) q) @ drop m q"
proof (induction q i rule: leave_queue_loop.induct)
  case (1 q i)
  have il: "Suc i < length q"
    using "1.prems" by (subst (asm) leave_queue_loop.simps) (simp split: if_splits)
  show ?case
  proof (cases "kind (q ! Suc i) \<noteq> NO_KIND \<and> i < 20")
    case True
    let ?q1 = "q[i := q ! Suc i]"
    have r: "leave_queue_loop ?q1 (Suc i) = Some (q', m)"
      using "1.prems" il True by (subst (asm) leave_queue_loop.simps) simp
    from "1.IH" [OF il True r]
    have im: "Suc i \<le> m" and ml: "Suc m < length q"
      and q': "q' = take (Suc i) ?q1 @ take (m - Suc i) (drop (Suc (Suc i)) ?q1) @ drop m ?q1"
      by simp_all
    have t1: "take (Suc i) ?q1 = take i q @ [q ! Suc i]"
      using il by (simp add: take_Suc_conv_app_nth)
    have t2: "drop (Suc (Suc i)) ?q1 = drop (Suc (Suc i)) q" by simp
    have t3: "drop m ?q1 = drop m q" using im by simp
    have t4: "take (m - i) (drop (Suc i) q) =
                q ! Suc i # take (m - Suc i) (drop (Suc (Suc i)) q)"
    proof -
      have "drop (Suc i) q = q ! Suc i # drop (Suc (Suc i)) q"
        using il by (simp add: Cons_nth_drop_Suc)
      moreover have "m - i = Suc (m - Suc i)" using im by simp
      ultimately show ?thesis by simp
    qed
    show ?thesis using im ml q' t1 t2 t3 t4 by simp
  next
    case False
    then have "q' = q \<and> m = i"
      using "1.prems" il by (subst (asm) leave_queue_loop.simps) auto
    then show ?thesis using il by simp
  qed
qed

lemma leave_queue_shape:
  assumes "leave_queue g = Some g'"
  shows "\<exists>m. Suc m < length (queue g) \<and>
           g' = g\<lparr>queue := take m (drop 1 (queue g)) @
                            (queue g ! m)\<lparr>kind := NO_KIND\<rparr> # drop (Suc m) (queue g)\<rparr>"
proof -
  obtain q' m where l: "leave_queue_loop (queue g) 0 = Some (q', m)"
    and g': "g' = g\<lparr>queue := q'[m := (q' ! m)\<lparr>kind := NO_KIND\<rparr>]\<rparr>"
    using assms by (auto simp: leave_queue_def split: option.splits)
  from leave_queue_loop_shape [OF l]
  have ml: "Suc m < length (queue g)"
    and q': "q' = take m (drop (Suc 0) (queue g)) @ drop m (queue g)" by simp_all
  have len: "length (take m (drop (Suc 0) (queue g))) = m" using ml by simp
  have dm: "drop m (queue g) = queue g ! m # drop (Suc m) (queue g)"
    using ml by (simp add: Cons_nth_drop_Suc)
  have "q'[m := (q' ! m)\<lparr>kind := NO_KIND\<rparr>] =
          take m (drop 1 (queue g)) @ (queue g ! m)\<lparr>kind := NO_KIND\<rparr> # drop (Suc m) (queue g)"
    using len by (simp add: q' dm list_update_append nth_append)
  then show ?thesis using g' ml by auto
qed

lemma leave_queue_count:
  assumes "leave_queue g = Some g'" and "k \<noteq> NO_KIND"
  shows "length (queue g') = length (queue g) \<and> in_library g' = in_library g \<and>
         readers_count g' = readers_count g \<and> writers_count g' = writers_count g \<and>
         count_kind k (length (queue g)) (queue g') + (if kind (queue g ! 0) = k then 1 else 0) =
         count_kind k (length (queue g)) (queue g)"
proof -
  obtain m where ml: "Suc m < length (queue g)"
    and g': "g' = g\<lparr>queue := take m (drop 1 (queue g)) @
                            (queue g ! m)\<lparr>kind := NO_KIND\<rparr> # drop (Suc m) (queue g)\<rparr>"
    using leave_queue_shape [OF assms(1)] by blast
  let ?q = "queue g"
  let ?P = "\<lambda>p. kind p = k"
  have len: "length (queue g') = length ?q" using g' ml by simp
  have q: "?q = ?q ! 0 # take m (drop 1 ?q) @ drop (Suc m) ?q"
  proof -
    have h: "?q = ?q ! 0 # drop 1 ?q" using ml by (cases ?q) simp_all
    have d: "drop m (drop 1 ?q) = drop (Suc m) ?q" by simp
    have "drop 1 ?q = take m (drop 1 ?q) @ drop m (drop 1 ?q)"
      by (rule append_take_drop_id [symmetric])
    then have "drop 1 ?q = take m (drop 1 ?q) @ drop (Suc m) ?q" using d by simp
    then show ?thesis using h by metis
  qed
  have c1: "length (filter ?P ?q) =
              (if kind (?q ! 0) = k then 1 else 0) + length (filter ?P (take m (drop 1 ?q)))
              + length (filter ?P (drop (Suc m) ?q))"
    by (subst q) simp
  have c2: "length (filter ?P (queue g')) =
              length (filter ?P (take m (drop 1 ?q))) + length (filter ?P (drop (Suc m) ?q))"
    using assms(2) by (simp add: g')
  have "count_kind k (length ?q) (queue g') = int (length (filter ?P (queue g')))"
    using count_kind_filter [of k "queue g'"] len by simp
  then show ?thesis using c1 c2 len g' by (simp add: count_kind_filter)
qed

lemma get_to_queue_count:
  assumes "get_to_queue now knd idn g = Some g'" and "k \<noteq> NO_KIND"
  shows "length (queue g') = length (queue g) \<and> in_library g' = in_library g \<and>
         readers_count g' = readers_count g \<and> writers_count g' = writers_count g \<and>
         count_kind k (length (queue g)) (queue g') =
         count_kind k (length (queue g)) (queue g) + (if knd = k then 1 else 0)"
proof -
  obtain p where fe: "first_empty_position (queue g) 0 = Some p"
    and g': "g' = g\<lparr>queue := (queue g)[p := \<lparr>kind = knd, id_no = idn, timestamp = now\<rparr>]\<rparr>"
    using assms(1) by (auto simp: get_to_queue_def split: option.splits)
  have p: "p < length (queue g)" and e: "kind (queue g ! p) = NO_KIND"
    using first_empty_position_sound [OF fe] by simp_all
  show ?thesis
    using count_kind_update [OF p, of k "\<lparr>kind = knd, id_no = idn, timestamp = now\<rparr>"] e assms(2)
    by (simp add: g')
qed

lemma get_to_library_count:
  assumes "get_to_library now knd idn g = Some g'" and "k \<noteq> NO_KIND"
  shows "length (in_library g') = length (in_library g) \<and> queue g' = queue g \<and>
         readers_count g' = readers_count g \<and> writers_count g' = writers_count g \<and>
         count_kind k (length (in_library g)) (in_library g') =
         count_kind k (length (in_library g)) (in_library g) + (if knd = k then 1 else 0)"
proof -
  obtain p where fe: "first_empty_position (in_library g) 0 = Some p"
    and g': "g' = g\<lparr>in_library := (in_library g)[p := \<lparr>kind = knd, id_no = idn, timestamp = now\<rparr>]\<rparr>"
    using assms(1) by (auto simp: get_to_library_def split: option.splits)
  have p: "p < length (in_library g)" and e: "kind (in_library g ! p) = NO_KIND"
    using first_empty_position_sound [OF fe] by simp_all
  show ?thesis
    using count_kind_update [OF p, of k "\<lparr>kind = knd, id_no = idn, timestamp = now\<rparr>"] e assms(2)
    by (simp add: g')
qed

lemma leave_library_count:
  assumes "leave_library knd idn g = Some g'" and "k \<noteq> NO_KIND" and "knd \<noteq> NO_KIND"
    and "length (in_library g) = nat (readers_count g + writers_count g)"
    and "\<exists>j < length (in_library g). kind (in_library g ! j) = knd \<and> id_no (in_library g ! j) = idn"
  shows "length (in_library g') = length (in_library g) \<and> queue g' = queue g \<and>
         readers_count g' = readers_count g \<and> writers_count g' = writers_count g \<and>
         count_kind k (length (in_library g)) (in_library g') + (if knd = k then 1 else 0) =
         count_kind k (length (in_library g)) (in_library g)"
proof -
  let ?a = "in_library g"
  obtain a' where l: "leave_library_loop knd idn (nat (readers_count g + writers_count g)) ?a 0 = Some a'"
    and g': "g' = g\<lparr>in_library := a'\<rparr>"
    using assms(1) by (auto simp: leave_library_def split: option.splits)
  from leave_library_loop_sound [OF l] assms(4,5)
  obtain j where j: "j < length ?a" and m: "kind (?a ! j) = knd"
    and a': "a' = ?a[j := (?a ! j)\<lparr>kind := NO_KIND\<rparr>]"
    by auto
  show ?thesis
    using count_kind_update [OF j, of k "(?a ! j)\<lparr>kind := NO_KIND\<rparr>"] m assms(2)
    by (simp add: g' a')
qed


text \<open>
  When \<open>leave_queue\<close> returns. It returns as soon as an element after the head is
  empty, or after 20 rounds on a queue long enough. On a queue of at most 21 elements
  with no empty element after the head, which is the queue of every run with at most 21
  agents when the first of them is admitted, the loop reads the element after the last
  one.
\<close>

lemma leave_queue_loop_past_end:
  assumes "\<forall>j. i < j \<and> j < length q \<longrightarrow> kind (q ! j) \<noteq> NO_KIND" and "length q \<le> 21"
  shows "leave_queue_loop q i = None"
  using assms
proof (induction q i rule: leave_queue_loop.induct)
  case (1 q i)
  show ?case
  proof (cases "Suc i < length q")
    case False
    then show ?thesis by (subst leave_queue_loop.simps) simp
  next
    case True
    then have ne: "kind (q ! Suc i) \<noteq> NO_KIND" and i20: "i < 20"
      using "1.prems" by auto
    let ?q1 = "q[i := q ! Suc i]"
    have "\<forall>j. Suc i < j \<and> j < length ?q1 \<longrightarrow> kind (?q1 ! j) \<noteq> NO_KIND"
      using "1.prems"(1) by (auto simp: nth_list_update)
    then have "leave_queue_loop ?q1 (Suc i) = None"
      using "1.IH" [of ] True ne i20 "1.prems"(2) by simp
    then show ?thesis using True ne i20 by (subst leave_queue_loop.simps) simp
  qed
qed

lemma leave_queue_past_full_queue:
  assumes "\<forall>j. 0 < j \<and> j < length (queue g) \<longrightarrow> kind (queue g ! j) \<noteq> NO_KIND"
    and "length (queue g) \<le> 21"
  shows "leave_queue g = None"
  using leave_queue_loop_past_end [of 0 "queue g"] assms by (simp add: leave_queue_def)

lemma leave_queue_loop_returns:
  assumes "i \<le> m" and "Suc m < length q" and "kind (q ! Suc m) = NO_KIND \<or> 20 \<le> m"
  shows "\<exists>r. leave_queue_loop q i = Some r"
  using assms
proof (induction q i rule: leave_queue_loop.induct)
  case (1 q i)
  have il: "Suc i < length q" using "1.prems"(1,2) by simp
  show ?case
  proof (cases "kind (q ! Suc i) \<noteq> NO_KIND \<and> i < 20")
    case False
    then show ?thesis using il by (subst leave_queue_loop.simps) auto
  next
    case True
    then have "i \<noteq> m" using "1.prems"(1,3) by auto
    then have im: "Suc i \<le> m" using "1.prems"(1) by simp
    let ?q1 = "q[i := q ! Suc i]"
    have "kind (?q1 ! Suc m) = NO_KIND \<or> 20 \<le> m" using "1.prems"(3) im by simp
    then have "\<exists>r. leave_queue_loop ?q1 (Suc i) = Some r"
      using "1.IH" [OF il True im] "1.prems"(2) by simp
    then show ?thesis using il True by (subst leave_queue_loop.simps) simp
  qed
qed

lemma leave_queue_returns:
  assumes "Suc m < length (queue g)" and "kind (queue g ! Suc m) = NO_KIND \<or> 20 \<le> m"
  shows "\<exists>g'. leave_queue g = Some g'"
proof -
  obtain r where "leave_queue_loop (queue g) 0 = Some r"
    using leave_queue_loop_returns [of 0 m "queue g"] assms by auto
  then show ?thesis by (cases r) (simp add: leave_queue_def)
qed

lemma first_admission_reads_past_queue:
  "Option.bind (started2 [''ReaderAndWriters2'', ''1'', ''2''])
     (run2 [Reader_waits2 0, Librarian_reads_head, Librarian_broadcasts]) \<noteq> None \<and>
   Option.bind (started2 [''ReaderAndWriters2'', ''1'', ''2''])
     (run2 [Reader_waits2 0, Librarian_reads_head, Librarian_broadcasts, Reader_enters2 0]) = None"
  by code_simp


lemma counts_unfold:
  assumes "allocated2 g"
  shows "get_readers_queue_count g = count_kind READER_KIND (length (queue g)) (queue g)"
    and "get_writers_queue_count g = count_kind WRITER_KIND (length (queue g)) (queue g)"
    and "get_readers_in_library_count g =
           count_kind READER_KIND (length (in_library g)) (in_library g)"
    and "get_writers_in_library_count g =
           count_kind WRITER_KIND (length (in_library g)) (in_library g)"
  using assms
  by (simp_all add: allocated2_def get_readers_queue_count_def get_writers_queue_count_def
      get_readers_in_library_count_def get_writers_in_library_count_def)

lemma enter2_totals:
  assumes al: "allocated2 g" and head: "kind (queue g ! 0) = knd"
    and knd: "knd = READER_KIND \<or> knd = WRITER_KIND"
    and run: "Option.bind (leave_queue g) (get_to_library now knd idn) = Some h"
  shows "same_totals2 g h \<and> allocated2 h"
proof -
  obtain g1 where l: "leave_queue g = Some g1" and e: "get_to_library now knd idn g1 = Some h"
    using run by (cases "leave_queue g") simp_all
  have lq: "\<And>k. k \<noteq> NO_KIND \<Longrightarrow>
              count_kind k (length (queue g)) (queue g1) + (if knd = k then 1 else 0) =
              count_kind k (length (queue g)) (queue g)"
    using leave_queue_count [OF l] head by simp
  have f1: "length (queue g1) = length (queue g)" "in_library g1 = in_library g"
    "readers_count g1 = readers_count g" "writers_count g1 = writers_count g"
    using leave_queue_count [OF l kinds_distinct(1)] by simp_all
  have gl: "\<And>k. k \<noteq> NO_KIND \<Longrightarrow>
              count_kind k (length (in_library g1)) (in_library h) =
              count_kind k (length (in_library g1)) (in_library g1) + (if knd = k then 1 else 0)"
    using get_to_library_count [OF e] by simp
  have f2: "length (in_library h) = length (in_library g1)" "queue h = queue g1"
    "readers_count h = readers_count g1" "writers_count h = writers_count g1"
    using get_to_library_count [OF e kinds_distinct(1)] by simp_all
  have alh: "allocated2 h" using al f1 f2 by (simp add: allocated2_def)
  have "same_totals2 g h"
    unfolding same_totals2_def counts_unfold [OF al] counts_unfold [OF alh]
    using lq [OF kinds_distinct(1)] lq [OF kinds_distinct(2)]
      gl [OF kinds_distinct(1)] gl [OF kinds_distinct(2)] f1 f2
    by (auto split: if_splits)
  then show ?thesis using alh by simp
qed

lemma exit2_totals:
  assumes al: "allocated2 g" and inside: "present knd idn (in_library g)"
    and knd: "knd = READER_KIND \<or> knd = WRITER_KIND"
    and run: "Option.bind (leave_library knd idn g) (get_to_queue now knd idn) = Some h"
  shows "same_totals2 g h \<and> allocated2 h"
proof -
  obtain g1 where l: "leave_library knd idn g = Some g1" and e: "get_to_queue now knd idn g1 = Some h"
    using run by (cases "leave_library knd idn g") simp_all
  have kn: "knd \<noteq> NO_KIND" using knd kinds_distinct by auto
  have len: "length (in_library g) = nat (readers_count g + writers_count g)"
    using al by (simp add: allocated2_def add.commute)
  have ex: "\<exists>j < length (in_library g). kind (in_library g ! j) = knd \<and> id_no (in_library g ! j) = idn"
    using inside by (simp add: present_def)
  have ll: "\<And>k. k \<noteq> NO_KIND \<Longrightarrow>
              count_kind k (length (in_library g)) (in_library g1) + (if knd = k then 1 else 0) =
              count_kind k (length (in_library g)) (in_library g)"
    using leave_library_count [OF l _ kn len ex] by simp
  have f1: "length (in_library g1) = length (in_library g)" "queue g1 = queue g"
    "readers_count g1 = readers_count g" "writers_count g1 = writers_count g"
    using leave_library_count [OF l kinds_distinct(1) kn len ex] by simp_all
  have gq: "\<And>k. k \<noteq> NO_KIND \<Longrightarrow>
              count_kind k (length (queue g1)) (queue h) =
              count_kind k (length (queue g1)) (queue g1) + (if knd = k then 1 else 0)"
    using get_to_queue_count [OF e] by simp
  have f2: "length (queue h) = length (queue g1)" "in_library h = in_library g1"
    "readers_count h = readers_count g1" "writers_count h = writers_count g1"
    using get_to_queue_count [OF e kinds_distinct(1)] by simp_all
  have alh: "allocated2 h" using al f1 f2 by (simp add: allocated2_def)
  have "same_totals2 g h"
    unfolding same_totals2_def counts_unfold [OF al] counts_unfold [OF alh]
    using ll [OF kinds_distinct(1)] ll [OF kinds_distinct(2)]
      gq [OF kinds_distinct(1)] gq [OF kinds_distinct(2)] f1 f2
    by (auto split: if_splits)
  then show ?thesis using alh by simp
qed

lemma agents_append: "agents (a @ b) = agents a + agents b"
  by (simp add: agents_def)

lemma agents_Cons: "agents (p # a) = one_agent p + agents a"
  by (simp add: agents_def one_agent_def)

lemma agents_update:
  assumes "p < length a"
  shows "agents (a[p := x]) + one_agent (a ! p) = agents a + one_agent x"
proof -
  have a: "a = take p a @ a ! p # drop (Suc p) a" using assms by (rule id_take_nth_drop)
  have u: "a[p := x] = take p a @ x # drop (Suc p) a" using assms by (rule upd_conv_take_nth_drop)
  have "agents a = agents (take p a) + (one_agent (a ! p) + agents (drop (Suc p) a))"
    by (subst a) (simp only: agents_append agents_Cons)
  moreover have "agents (a[p := x]) = agents (take p a) + (one_agent x + agents (drop (Suc p) a))"
    by (subst u) (simp only: agents_append agents_Cons)
  ultimately show ?thesis by simp
qed

lemma leave_queue_agents:
  assumes "leave_queue g = Some g'"
  shows "agents (queue g') + one_agent (queue g ! 0) = agents (queue g) \<and>
         in_library g' = in_library g"
proof -
  obtain m where ml: "Suc m < length (queue g)"
    and g': "g' = g\<lparr>queue := take m (drop 1 (queue g)) @
                            (queue g ! m)\<lparr>kind := NO_KIND\<rparr> # drop (Suc m) (queue g)\<rparr>"
    using leave_queue_shape [OF assms] by blast
  let ?q = "queue g"
  have q: "?q = ?q ! 0 # take m (drop 1 ?q) @ drop (Suc m) ?q"
  proof -
    have h: "?q = ?q ! 0 # drop 1 ?q" using ml by (cases ?q) simp_all
    have d: "drop m (drop 1 ?q) = drop (Suc m) ?q" by simp
    have "drop 1 ?q = take m (drop 1 ?q) @ drop m (drop 1 ?q)"
      by (rule append_take_drop_id [symmetric])
    then have "drop 1 ?q = take m (drop 1 ?q) @ drop (Suc m) ?q" using d by simp
    then show ?thesis using h by metis
  qed
  have "agents ?q = one_agent (?q ! 0) + (agents (take m (drop 1 ?q)) + agents (drop (Suc m) ?q))"
    by (subst q) (simp only: agents_append agents_Cons)
  moreover have "agents (queue g') = agents (take m (drop 1 ?q)) + agents (drop (Suc m) ?q)"
    by (simp add: g' agents_append agents_Cons one_agent_def)
  ultimately show ?thesis using g' by simp
qed

lemma get_to_queue_agents:
  assumes "get_to_queue now knd idn g = Some g'" and "knd \<noteq> NO_KIND"
  shows "agents (queue g') = agents (queue g) + {#(knd, idn)#} \<and> in_library g' = in_library g"
proof -
  obtain p where fe: "first_empty_position (queue g) 0 = Some p"
    and g': "g' = g\<lparr>queue := (queue g)[p := \<lparr>kind = knd, id_no = idn, timestamp = now\<rparr>]\<rparr>"
    using assms(1) by (auto simp: get_to_queue_def split: option.splits)
  have p: "p < length (queue g)" and e: "kind (queue g ! p) = NO_KIND"
    using first_empty_position_sound [OF fe] by simp_all
  show ?thesis
    using agents_update [OF p, of "\<lparr>kind = knd, id_no = idn, timestamp = now\<rparr>"] e assms(2)
    by (simp add: g' one_agent_def)
qed

lemma get_to_library_agents:
  assumes "get_to_library now knd idn g = Some g'" and "knd \<noteq> NO_KIND"
  shows "agents (in_library g') = agents (in_library g) + {#(knd, idn)#} \<and> queue g' = queue g"
proof -
  obtain p where fe: "first_empty_position (in_library g) 0 = Some p"
    and g': "g' = g\<lparr>in_library := (in_library g)[p := \<lparr>kind = knd, id_no = idn, timestamp = now\<rparr>]\<rparr>"
    using assms(1) by (auto simp: get_to_library_def split: option.splits)
  have p: "p < length (in_library g)" and e: "kind (in_library g ! p) = NO_KIND"
    using first_empty_position_sound [OF fe] by simp_all
  show ?thesis
    using agents_update [OF p, of "\<lparr>kind = knd, id_no = idn, timestamp = now\<rparr>"] e assms(2)
    by (simp add: g' one_agent_def)
qed

lemma leave_library_agents:
  assumes "leave_library knd idn g = Some g'" and "knd \<noteq> NO_KIND"
    and "length (in_library g) = nat (readers_count g + writers_count g)"
    and "present knd idn (in_library g)"
  shows "agents (in_library g') + {#(knd, idn)#} = agents (in_library g) \<and> queue g' = queue g"
proof -
  let ?a = "in_library g"
  obtain a' where l: "leave_library_loop knd idn (nat (readers_count g + writers_count g)) ?a 0 = Some a'"
    and g': "g' = g\<lparr>in_library := a'\<rparr>"
    using assms(1) by (auto simp: leave_library_def split: option.splits)
  from leave_library_loop_sound [OF l] assms(3,4)
  obtain j where j: "j < length ?a" and m: "kind (?a ! j) = knd" "id_no (?a ! j) = idn"
    and a': "a' = ?a[j := (?a ! j)\<lparr>kind := NO_KIND\<rparr>]"
    by (auto simp: present_def)
  show ?thesis
    using agents_update [OF j, of "(?a ! j)\<lparr>kind := NO_KIND\<rparr>"] m assms(2)
    by (simp add: g' a' one_agent_def)
qed

lemma enter2_agents:
  assumes head: "kind (queue g ! 0) = knd" "id_no (queue g ! 0) = idn"
    and knd: "knd \<noteq> NO_KIND"
    and run: "Option.bind (leave_queue g) (get_to_library now knd idn) = Some h"
  shows "same_agents2 g h"
proof -
  obtain g1 where l: "leave_queue g = Some g1" and e: "get_to_library now knd idn g1 = Some h"
    using run by (cases "leave_queue g") simp_all
  have a: "agents (queue g1) + {#(knd, idn)#} = agents (queue g)" "in_library g1 = in_library g"
    using leave_queue_agents [OF l] head knd by (simp_all add: one_agent_def)
  have b: "agents (in_library h) = agents (in_library g1) + {#(knd, idn)#}" "queue h = queue g1"
    using get_to_library_agents [OF e knd] by simp_all
  show ?thesis unfolding same_agents2_def using a b by (simp add: ac_simps)
qed

lemma exit2_agents:
  assumes al: "allocated2 g" and inside: "present knd idn (in_library g)"
    and knd: "knd \<noteq> NO_KIND"
    and run: "Option.bind (leave_library knd idn g) (get_to_queue now knd idn) = Some h"
  shows "same_agents2 g h"
proof -
  obtain g1 where l: "leave_library knd idn g = Some g1" and e: "get_to_queue now knd idn g1 = Some h"
    using run by (cases "leave_library knd idn g") simp_all
  have len: "length (in_library g) = nat (readers_count g + writers_count g)"
    using al by (simp add: allocated2_def add.commute)
  have a: "agents (in_library g1) + {#(knd, idn)#} = agents (in_library g)" "queue g1 = queue g"
    using leave_library_agents [OF l knd len inside] by simp_all
  have b: "agents (queue h) = agents (queue g1) + {#(knd, idn)#}" "in_library h = in_library g1"
    using get_to_queue_agents [OF e knd] by simp_all
  show ?thesis unfolding same_agents2_def using a b by (simp add: ac_simps)
qed

lemma same_totals1_refl: "same_totals1 g g"
  by (simp add: same_totals1_def)

lemma same_totals1_trans: "same_totals1 g h \<Longrightarrow> same_totals1 h k \<Longrightarrow> same_totals1 g k"
  by (simp add: same_totals1_def)

lemma moves1_totals:
  "read_books_enter1 now i g = Some h \<Longrightarrow> same_totals1 g h"
  "read_books_exit1 now i g = Some h \<Longrightarrow> same_totals1 g h"
  "write_book_enter1 now i g = Some h \<Longrightarrow> same_totals1 g h"
  "write_book_exit1 now i g = Some h \<Longrightarrow> same_totals1 g h"
  by (auto simp: same_totals1_def read_books_enter1_def read_books_exit1_def
      write_book_enter1_def write_book_exit1_def split: if_splits)

lemma librarian_cycle_totals: "librarian_cycle clk g = (h, sg) \<Longrightarrow> same_totals1 g h"
  by (auto simp: librarian_cycle_def same_totals1_def split: if_splits)

lemma step1_totals: "step1 a s = Some t \<Longrightarrow> same_totals1 (shared s) (shared t)"
proof (cases a)
  case Librarian_cycles
  assume st: "step1 a s = Some t"
  obtain h sg where c: "librarian_cycle (\<lambda>i. clock s) (shared s) = (h, sg)"
    by (cases "librarian_cycle (\<lambda>i. clock s) (shared s)")
  have "shared t = h" using st Librarian_cycles c by (auto split: if_splits)
  then show ?thesis using librarian_cycle_totals [OF c] by simp
next
  case Librarian_notifies
  assume "step1 a s = Some t"
  then show ?thesis using Librarian_notifies
    by (auto simp: same_totals1_def split: if_splits)
next
  case Librarian_compares
  assume "step1 a s = Some t"
  then show ?thesis using Librarian_compares
    by (auto simp: same_totals1_refl split: if_splits librarian_pc.splits prod.splits)
next
  case Librarian_signals
  assume "step1 a s = Some t"
  then show ?thesis using Librarian_signals
    by (auto simp: same_totals1_refl split: if_splits librarian_pc.splits)
qed (auto simp: same_totals1_refl moves1_totals split: if_splits option.splits)

lemma run1_totals: "run1 acts s = Some t \<Longrightarrow> same_totals1 (shared s) (shared t)"
proof (induction acts arbitrary: s)
  case Nil
  then show ?case by (simp add: same_totals1_refl)
next
  case (Cons a acts)
  then obtain u where u: "step1 a s = Some u" and r: "run1 acts u = Some t"
    by (cases "step1 a s") simp_all
  show ?case using same_totals1_trans [OF step1_totals [OF u] Cons.IH [OF r]] .
qed

text \<open>
  What does hold of conservation. Every move of an agent between queue and library,
  made by the agent whose turn it is, keeps for readers and for writers the number in
  the queue plus the number in the library.

  In \<open>r_w_1.c\<close> the two critical sections of \<open>read_books\<close> and of \<open>write_book\<close> keep
  both sums of the counters, whatever the state; the moved agent's time stamps say
  "in the library, not in the queue" after the first and the reverse after the second
  (the clock not reading 0); and so the sums are the same after any run of the threads.

  In \<open>r_w_2.c\<close> the pair \<open>leave_queue\<close>, \<open>get_to_library\<close> keeps both sums of the
  counting functions when the head of the queue has the kind of the agent that enters,
  and the pair \<open>leave_library\<close>, \<open>get_to_queue\<close> keeps them when the agent that goes
  back is in the library. When the agent that enters is the head itself, and whenever an
  agent in the library goes back, queue and library together hold the same agents before
  and after. This is for the arrays as allocated and for the calls that return: on a
  queue with no empty element after the head \<open>leave_queue\<close> reads past the array.
\<close>

theorem moves_keep_totals:
  "(read_books_enter1 now i g1 = Some h1 \<longrightarrow>
      same_totals1 g1 h1 \<and>
      (now \<noteq> 0 \<longrightarrow> readers_in_library h1 ! i \<noteq> 0 \<and> readers_queue h1 ! i = 0)) \<and>
   (read_books_exit1 now i g1 = Some h1 \<longrightarrow>
      same_totals1 g1 h1 \<and>
      (now \<noteq> 0 \<longrightarrow> readers_in_library h1 ! i = 0 \<and> readers_queue h1 ! i \<noteq> 0)) \<and>
   (write_book_enter1 now i g1 = Some h1 \<longrightarrow>
      same_totals1 g1 h1 \<and>
      (now \<noteq> 0 \<longrightarrow> writers_in_library h1 ! i \<noteq> 0 \<and> writers_queue h1 ! i = 0)) \<and>
   (write_book_exit1 now i g1 = Some h1 \<longrightarrow>
      same_totals1 g1 h1 \<and>
      (now \<noteq> 0 \<longrightarrow> writers_in_library h1 ! i = 0 \<and> writers_queue h1 ! i \<noteq> 0)) \<and>
   (run1 acts s1 = Some t1 \<longrightarrow> same_totals1 (shared s1) (shared t1)) \<and>
   (allocated2 g2 \<and> kind (queue g2 ! 0) = READER_KIND \<and>
      read_books_enter2 now idn g2 = Some h2 \<longrightarrow> same_totals2 g2 h2 \<and> allocated2 h2) \<and>
   (allocated2 g2 \<and> kind (queue g2 ! 0) = WRITER_KIND \<and>
      write_book_enter2 now idn g2 = Some h2 \<longrightarrow> same_totals2 g2 h2 \<and> allocated2 h2) \<and>
   (allocated2 g2 \<and> present READER_KIND idn (in_library g2) \<and>
      read_books_exit2 now idn g2 = Some h2 \<longrightarrow>
      same_totals2 g2 h2 \<and> allocated2 h2 \<and> same_agents2 g2 h2) \<and>
   (allocated2 g2 \<and> present WRITER_KIND idn (in_library g2) \<and>
      write_book_exit2 now idn g2 = Some h2 \<longrightarrow>
      same_totals2 g2 h2 \<and> allocated2 h2 \<and> same_agents2 g2 h2) \<and>
   (kind (queue g2 ! 0) = READER_KIND \<and> id_no (queue g2 ! 0) = idn \<and>
      read_books_enter2 now idn g2 = Some h2 \<longrightarrow> same_agents2 g2 h2) \<and>
   (kind (queue g2 ! 0) = WRITER_KIND \<and> id_no (queue g2 ! 0) = idn \<and>
      write_book_enter2 now idn g2 = Some h2 \<longrightarrow> same_agents2 g2 h2)"
proof (intro conjI impI)
  assume "read_books_enter1 now i g1 = Some h1" and "now \<noteq> 0"
  then show "readers_in_library h1 ! i \<noteq> 0" and "readers_queue h1 ! i = 0"
    by (auto simp: read_books_enter1_def split: if_splits)
next
  assume "read_books_exit1 now i g1 = Some h1" and "now \<noteq> 0"
  then show "readers_in_library h1 ! i = 0" and "readers_queue h1 ! i \<noteq> 0"
    by (auto simp: read_books_exit1_def split: if_splits)
next
  assume "write_book_enter1 now i g1 = Some h1" and "now \<noteq> 0"
  then show "writers_in_library h1 ! i \<noteq> 0" and "writers_queue h1 ! i = 0"
    by (auto simp: write_book_enter1_def split: if_splits)
next
  assume "write_book_exit1 now i g1 = Some h1" and "now \<noteq> 0"
  then show "writers_in_library h1 ! i = 0" and "writers_queue h1 ! i \<noteq> 0"
    by (auto simp: write_book_exit1_def split: if_splits)
next
  assume a: "allocated2 g2 \<and> kind (queue g2 ! 0) = READER_KIND \<and>
      read_books_enter2 now idn g2 = Some h2"
  then show "same_totals2 g2 h2" and "allocated2 h2"
    using enter2_totals [of g2 READER_KIND now idn h2] by (simp_all add: read_books_enter2_def)
next
  assume a: "allocated2 g2 \<and> kind (queue g2 ! 0) = WRITER_KIND \<and>
      write_book_enter2 now idn g2 = Some h2"
  then show "same_totals2 g2 h2" and "allocated2 h2"
    using enter2_totals [of g2 WRITER_KIND now idn h2] by (simp_all add: write_book_enter2_def)
next
  assume a: "allocated2 g2 \<and> present READER_KIND idn (in_library g2) \<and>
      read_books_exit2 now idn g2 = Some h2"
  then show "same_totals2 g2 h2" and "allocated2 h2"
    using exit2_totals [of g2 READER_KIND idn now h2] by (simp_all add: read_books_exit2_def)
  show "same_agents2 g2 h2"
    using a exit2_agents [of g2 READER_KIND idn now h2]
    by (simp add: read_books_exit2_def kinds_distinct)
next
  assume a: "allocated2 g2 \<and> present WRITER_KIND idn (in_library g2) \<and>
      write_book_exit2 now idn g2 = Some h2"
  then show "same_totals2 g2 h2" and "allocated2 h2"
    using exit2_totals [of g2 WRITER_KIND idn now h2] by (simp_all add: write_book_exit2_def)
  show "same_agents2 g2 h2"
    using a exit2_agents [of g2 WRITER_KIND idn now h2]
    by (simp add: write_book_exit2_def kinds_distinct)
next
  assume "kind (queue g2 ! 0) = READER_KIND \<and> id_no (queue g2 ! 0) = idn \<and>
      read_books_enter2 now idn g2 = Some h2"
  then show "same_agents2 g2 h2"
    using enter2_agents [of g2 READER_KIND idn now h2]
    by (simp add: read_books_enter2_def kinds_distinct)
next
  assume "kind (queue g2 ! 0) = WRITER_KIND \<and> id_no (queue g2 ! 0) = idn \<and>
      write_book_enter2 now idn g2 = Some h2"
  then show "same_agents2 g2 h2"
    using enter2_agents [of g2 WRITER_KIND idn now h2]
    by (simp add: write_book_enter2_def kinds_distinct)
qed (simp_all add: moves1_totals run1_totals)

theorem moves_keep_totals_witness:
  "(\<exists>h. read_books_enter2 1002 1 example_reader_at_head = Some h \<and>
        same_totals2 example_reader_at_head h \<and> allocated2 h \<and>
        same_agents2 example_reader_at_head h) \<and>
   (\<exists>h. write_book_enter2 1002 0 example_writer_at_head = Some h \<and>
        same_totals2 example_writer_at_head h \<and> allocated2 h \<and>
        same_agents2 example_writer_at_head h) \<and>
   (\<exists>h. read_books_exit2 1003 0 example_reader_at_head = Some h \<and>
        same_totals2 example_reader_at_head h \<and> allocated2 h \<and>
        same_agents2 example_reader_at_head h) \<and>
   (\<exists>h. write_book_exit2 1003 0 example_writer_inside = Some h \<and>
        same_totals2 example_writer_inside h \<and> allocated2 h \<and>
        same_agents2 example_writer_inside h) \<and>
   (\<exists>s h. started2 [''ReaderAndWriters2'', ''2'', ''20''] = Some s \<and>
        read_books_enter2 1001 0 (shared2 s) = Some h \<and>
        same_totals2 (shared2 s) h \<and> allocated2 h \<and> same_agents2 (shared2 s) h) \<and>
   (\<exists>s t. started1 [''ReaderAndWriters1'', ''1'', ''1''] = Some s \<and>
        run1 [Reader_checks 0, Reader_enters 0, Tick, Reader_leaves 0, Writer_waits 0,
              Librarian_cycles, Writer_sees_no_reader 0, Writer_enters 0, Tick, Writer_leaves 0]
          s = Some t \<and>
        same_totals1 (shared s) (shared t))"
proof -
  have al: "allocated2 example_reader_at_head" "allocated2 example_writer_at_head"
    "allocated2 example_writer_inside"
    by (simp_all add: allocated2_def example_reader_at_head_def example_writer_at_head_def
        example_writer_inside_def globals2_start_def)
  have hd: "kind (queue example_reader_at_head ! 0) = READER_KIND"
    "kind (queue example_writer_at_head ! 0) = WRITER_KIND"
    "id_no (queue example_reader_at_head ! 0) = 1"
    "id_no (queue example_writer_at_head ! 0) = 0"
    by (simp_all add: example_reader_at_head_def example_writer_at_head_def)
  have ins: "present READER_KIND 0 (in_library example_reader_at_head)"
    "present WRITER_KIND 0 (in_library example_writer_inside)"
    by (auto simp: present_def example_reader_at_head_def example_writer_inside_def)
  have "read_books_enter2 1002 1 example_reader_at_head \<noteq> None" by code_simp
  then obtain h1 where h1: "read_books_enter2 1002 1 example_reader_at_head = Some h1" by auto
  have "write_book_enter2 1002 0 example_writer_at_head \<noteq> None" by code_simp
  then obtain h2 where h2: "write_book_enter2 1002 0 example_writer_at_head = Some h2" by auto
  have "read_books_exit2 1003 0 example_reader_at_head \<noteq> None" by code_simp
  then obtain h3 where h3: "read_books_exit2 1003 0 example_reader_at_head = Some h3" by auto
  have "write_book_exit2 1003 0 example_writer_inside \<noteq> None" by code_simp
  then obtain h4 where h4: "write_book_exit2 1003 0 example_writer_inside = Some h4" by auto
  have st: "map_option
          (\<lambda>s. allocated2 (shared2 s) \<and> kind (queue (shared2 s) ! 0) = READER_KIND \<and>
               id_no (queue (shared2 s) ! 0) = 0 \<and>
               read_books_enter2 1001 0 (shared2 s) \<noteq> None)
          (started2 [''ReaderAndWriters2'', ''2'', ''20'']) = Some True"
    by code_simp
  then obtain s2 where s2: "started2 [''ReaderAndWriters2'', ''2'', ''20''] = Some s2"
    by (cases "started2 [''ReaderAndWriters2'', ''2'', ''20'']") simp_all
  have f2: "allocated2 (shared2 s2)" "kind (queue (shared2 s2) ! 0) = READER_KIND"
    "id_no (queue (shared2 s2) ! 0) = 0" "read_books_enter2 1001 0 (shared2 s2) \<noteq> None"
    using st s2 by simp_all
  then obtain h5 where h5: "read_books_enter2 1001 0 (shared2 s2) = Some h5" by auto
  have c6: "same_totals2 (shared2 s2) h5 \<and> allocated2 h5 \<and> same_agents2 (shared2 s2) h5"
    using moves_keep_totals [where ?g2.0 = "shared2 s2" and ?h2.0 = h5 and now = 1001 and idn = 0]
      f2 h5 by blast
  have "started1 [''ReaderAndWriters1'', ''1'', ''1''] \<noteq> None" by code_simp
  then obtain s where s: "started1 [''ReaderAndWriters1'', ''1'', ''1''] = Some s" by auto
  have "Option.bind (started1 [''ReaderAndWriters1'', ''1'', ''1''])
          (run1 [Reader_checks 0, Reader_enters 0, Tick, Reader_leaves 0, Writer_waits 0,
              Librarian_cycles, Writer_sees_no_reader 0, Writer_enters 0, Tick, Writer_leaves 0])
        \<noteq> None" by code_simp
  then obtain t where t: "run1 [Reader_checks 0, Reader_enters 0, Tick, Reader_leaves 0, Writer_waits 0,
              Librarian_cycles, Writer_sees_no_reader 0, Writer_enters 0, Tick, Writer_leaves 0] s = Some t"
    using s by auto
  have c1: "same_totals2 example_reader_at_head h1 \<and> allocated2 h1 \<and>
      same_agents2 example_reader_at_head h1"
    using moves_keep_totals [where ?g2.0 = example_reader_at_head and ?h2.0 = h1 and now = 1002 and idn = 1]
      al hd h1 by blast
  have c2: "same_totals2 example_writer_at_head h2 \<and> allocated2 h2 \<and>
      same_agents2 example_writer_at_head h2"
    using moves_keep_totals [where ?g2.0 = example_writer_at_head and ?h2.0 = h2 and now = 1002 and idn = 0]
      al hd h2 by blast
  have c3: "same_totals2 example_reader_at_head h3 \<and> allocated2 h3 \<and>
      same_agents2 example_reader_at_head h3"
    using moves_keep_totals [where ?g2.0 = example_reader_at_head and ?h2.0 = h3 and now = 1003 and idn = 0]
      al ins h3 by blast
  have c4: "same_totals2 example_writer_inside h4 \<and> allocated2 h4 \<and>
      same_agents2 example_writer_inside h4"
    using moves_keep_totals [where ?g2.0 = example_writer_inside and ?h2.0 = h4 and now = 1003 and idn = 0]
      al ins h4 by blast
  have c5: "same_totals1 (shared s) (shared t)"
    using moves_keep_totals [where ?s1.0 = s and ?t1.0 = t and acts = "[Reader_checks 0, Reader_enters 0, Tick, Reader_leaves 0, Writer_waits 0,
              Librarian_cycles, Writer_sees_no_reader 0, Writer_enters 0, Tick, Writer_leaves 0]"] t by blast
  show ?thesis using h1 h2 h3 h4 s2 h5 s t c1 c2 c3 c4 c5 c6 by blast
qed

subsection \<open>Conservation in \<open>r_w_2.c\<close>\<close>

text \<open>
  C3 fails on \<open>r_w_2.c\<close>. An agent that is woken takes the head off the queue,
  whoever the head is; and the librarian reads \<open>queue[0].kind\<close> and, later,
  \<open>queue[0].id\<close> without the mutex, so that the head may have changed in between.

  Started as \<open>ReaderAndWriters2 2 20\<close>, the sums are 20 readers and 2 writers. After
  the schedule \<open>reader19_woken\<close> and the librarian's round \<open>stale_wake\<close> the queue
  holds writer 0, reader 0 and writer 1, and it is reader 0 that has been woken, not the
  head. Reader 0 enters: \<open>leave_queue\<close> removes writer 0. Now reader 0 is both in the
  queue and in the library and writer 0 is in neither; the sums are 21 readers and 1
  writer.
\<close>

theorem stale_wake_breaks_conservation:
  "map_option (\<lambda>s. totals2 (shared2 s)) (started2 [''ReaderAndWriters2'', ''2'', ''20''])
     = Some (20, 2) \<and>
   map_option (\<lambda>s. (totals2 (shared2 s), occupied (queue (shared2 s)), readers2 s ! 0, writers2 s ! 0))
     (Option.bind (started2 [''ReaderAndWriters2'', ''2'', ''20''])
        (run2 (reader19_woken @ stale_wake)))
     = Some ((20, 2), [(WRITER_KIND, 0), (READER_KIND, 0), (WRITER_KIND, 1)],
             Agent_woken, Agent_top) \<and>
   map_option (\<lambda>s. (totals2 (shared2 s), occupied (queue (shared2 s)),
                    occupied (in_library (shared2 s))))
     (Option.bind (started2 [''ReaderAndWriters2'', ''2'', ''20''])
        (run2 (reader19_woken @ stale_wake @ [Reader_enters2 0])))
     = Some ((21, 1), [(READER_KIND, 0), (WRITER_KIND, 1)],
             (READER_KIND, 19) # map (\<lambda>i. (READER_KIND, int i)) [1..<19] @ [(READER_KIND, 0)])"
  by code_simp


subsection \<open>Order of service in \<open>r_w_2.c\<close>\<close>

text \<open>
  C4 fails on the code. \<open>leave_queue\<close> stops moving entries up after 20 rounds
  (\<open>i < 20\<close>), so with 22 agents the entry at index 21 is never moved and the element
  at index 20 is left empty; the next agent to come back is put there by
  \<open>get_to_queue\<close>, in front of the one at index 21.

  Started as \<open>ReaderAndWriters2 0 22\<close>: reader 0 is served, and goes back to the queue
  one second later. The queue then holds readers 1 to 20, reader 0 (stamp 1001) and
  reader 21 (stamp 1000), in this order. After the librarian has served readers 1 to 20
  it serves reader 0 a second time, while reader 21, in the queue from the start, has
  never been woken and is still at index 21.
\<close>

theorem late_reader_overtakes:
  "map_option (\<lambda>s. map (\<lambda>p. (kind p, id_no p, timestamp p)) (queue (shared2 s)))
     (Option.bind (started2 [''ReaderAndWriters2'', ''0'', ''22''])
        (run2 (reader_served 0 @ [Tick2, Reader_leaves2 0])))
     = Some (map (\<lambda>i. (READER_KIND, int i, 1000)) [1..<21] @
             [(READER_KIND, 0, 1001), (READER_KIND, 21, 1000)]) \<and>
   map_option (\<lambda>s. (readers2 s ! 0, readers2 s ! 21, queue (shared2 s) ! 21))
     (Option.bind (started2 [''ReaderAndWriters2'', ''0'', ''22''])
        (run2 (reader_served 0 @ [Tick2, Reader_leaves2 0] @
               concat (map reader_served [1..<21]) @ reader_served 0)))
     = Some (Agent_inside, Agent_top, \<lparr>kind = READER_KIND, id_no = 21, timestamp = 1000\<rparr>)"
  by code_simp

subsection \<open>The librarian of \<open>r_w_1.c\<close>\<close>

lemma to_int_id: "INT_MIN \<le> x \<Longrightarrow> x \<le> INT_MAX \<Longrightarrow> to_int x = x"
  by (simp add: to_int_def INT_MIN_def INT_MAX_def)

lemma longest_waiting_result:
  assumes "longest_waiting clk wq xs (mid, mt) = (k, t)"
  shows "mt \<le> t \<and> (\<forall>i \<in> set xs. to_int (clk i - wq ! i) \<le> t) \<and>
         ((k = mid \<and> t = mt) \<or>
          (mt < t \<and> (\<exists>ys zs. xs = ys @ k # zs \<and> to_int (clk k - wq ! k) = t \<and>
                          (\<forall>j \<in> set ys. to_int (clk j - wq ! j) < t))))"
  using assms
proof (induction xs arbitrary: mid mt)
  case Nil
  then show ?case by simp
next
  case (Cons i rest)
  let ?w = "\<lambda>i. to_int (clk i - wq ! i)"
  show ?case
  proof (cases "?w i > mt")
    case True
    then have r: "longest_waiting clk wq rest (i, ?w i) = (k, t)"
      using Cons.prems by (simp add: Let_def)
    from Cons.IH [OF r]
    have a: "?w i \<le> t" and b: "\<forall>j \<in> set rest. ?w j \<le> t"
      and c: "(k = i \<and> t = ?w i) \<or>
          (?w i < t \<and> (\<exists>ys zs. rest = ys @ k # zs \<and> ?w k = t \<and> (\<forall>j \<in> set ys. ?w j < t)))"
      by auto
    have lt: "mt < t" using True a by simp
    from c have "\<exists>ys zs. i # rest = ys @ k # zs \<and> ?w k = t \<and> (\<forall>j \<in> set ys. ?w j < t)"
    proof
      assume "k = i \<and> t = ?w i"
      then have "i # rest = [] @ k # rest \<and> ?w k = t \<and> (\<forall>j \<in> set []. ?w j < t)" by simp
      then show ?thesis by blast
    next
      assume "?w i < t \<and> (\<exists>ys zs. rest = ys @ k # zs \<and> ?w k = t \<and> (\<forall>j \<in> set ys. ?w j < t))"
      then obtain ys zs where "?w i < t" "rest = ys @ k # zs" "?w k = t" "\<forall>j \<in> set ys. ?w j < t"
        by blast
      then have "i # rest = (i # ys) @ k # zs \<and> ?w k = t \<and> (\<forall>j \<in> set (i # ys). ?w j < t)"
        by simp
      then show ?thesis by blast
    qed
    then show ?thesis using lt a b by auto
  next
    case False
    then have r: "longest_waiting clk wq rest (mid, mt) = (k, t)"
      using Cons.prems by (simp add: Let_def)
    from Cons.IH [OF r]
    have a: "mt \<le> t" and b: "\<forall>j \<in> set rest. ?w j \<le> t"
      and c: "(k = mid \<and> t = mt) \<or>
          (mt < t \<and> (\<exists>ys zs. rest = ys @ k # zs \<and> ?w k = t \<and> (\<forall>j \<in> set ys. ?w j < t)))"
      by auto
    have wi: "?w i \<le> t" using False a by simp
    from c have "(k = mid \<and> t = mt) \<or>
          (mt < t \<and> (\<exists>ys zs. i # rest = ys @ k # zs \<and> ?w k = t \<and> (\<forall>j \<in> set ys. ?w j < t)))"
    proof
      assume "k = mid \<and> t = mt" then show ?thesis by simp
    next
      assume h: "mt < t \<and> (\<exists>ys zs. rest = ys @ k # zs \<and> ?w k = t \<and> (\<forall>j \<in> set ys. ?w j < t))"
      then obtain ys zs where "rest = ys @ k # zs" "?w k = t" "\<forall>j \<in> set ys. ?w j < t"
        by blast
      moreover have "?w i < t" using False h by simp
      ultimately have "i # rest = (i # ys) @ k # zs \<and> ?w k = t \<and> (\<forall>j \<in> set (i # ys). ?w j < t)"
        by simp
      then show ?thesis using h by blast
    qed
    then show ?thesis using a b wi by auto
  qed
qed

lemma upt_split_at:
  assumes "[0..<n] = ys @ k # zs"
  shows "k < n \<and> ys = [0..<k]"
proof -
  have k: "k \<in> set [0..<n]" using assms by simp
  then have kn: "k < n" by simp
  have "[0..<n] = [0..<k] @ k # [Suc k..<n]"
    using kn by (metis le0 upt_add_eq_append upt_conv_Cons le_add_diff_inverse less_imp_le_nat)
  moreover have "length ys = k"
  proof -
    have "[0..<n] ! length ys = k" using assms by (simp add: nth_append)
    moreover have "length ys < n" using assms
      by (metis length_upt diff_zero length_append length_Cons less_add_Suc1 add_Suc_right)
    ultimately show ?thesis by simp
  qed
  ultimately have "ys = take k [0..<n]" using assms by (metis append_eq_conv_conj)
  then show ?thesis using kn by simp
qed

lemma startup1_evals:
  "startup1 [''ReaderAndWriters1'', ''1'', ''1''] mwl mwq mrl mrq now =
     Inr (globals1_start\<lparr>writers_count := 1, writers_queue_count := 1,
            readers_count := 1, readers_queue_count := 1,
            writers_in_library := [mwl 0], writers_queue := [now],
            readers_in_library := [mrl 0], readers_queue := [now]\<rparr>)"
  "startup1 [''ReaderAndWriters1'', ''0'', ''1''] mwl mwq mrl mrq now =
     Inr (globals1_start\<lparr>writers_count := 0, writers_queue_count := 0,
            readers_count := 1, readers_queue_count := 1,
            writers_in_library := [], writers_queue := [],
            readers_in_library := [mrl 0], readers_queue := [now]\<rparr>)"
  "startup1 [''ReaderAndWriters1'', ''2'', ''1''] mwl mwq mrl mrq now =
     Inr (globals1_start\<lparr>writers_count := 2, writers_queue_count := 2,
            readers_count := 1, readers_queue_count := 1,
            writers_in_library := [mwl 0, mwl 1], writers_queue := [now, now],
            readers_in_library := [mrl 0], readers_queue := [now]\<rparr>)"
  by (simp_all add: startup1_def args_interpreter1_def atoi_evals variables_initializer1_def
      init_queue1_def globals1_start_def upt_conv_Cons numeral_2_eq_2)

lemma run1_append: "run1 (as @ bs) s = Option.bind (run1 as s) (run1 bs)"
  by (induction as arbitrary: s) (auto split: option.splits)

lemma longest_waiting_Cons:
  "longest_waiting clk wq (i # rest) (mid, mt) =
     longest_waiting clk wq rest (longest_waiting clk wq [i] (mid, mt))"
  by (simp add: Let_def)

lemma librarian_compares_run:
  assumes "librarian_at s = Librarian_searches i mid mt"
    and "i \<le> n" and "n = nat (writers_count (shared s))"
    and "length (writers_queue (shared s)) = n"
    and "longest_waiting (\<lambda>j. clock s) (writers_queue (shared s)) [i..<n] (mid, mt) = (k, t)"
  shows "run1 (replicate (n - i) Librarian_compares) s =
           Some (s\<lparr>librarian_at := Librarian_searches n k t\<rparr>)"
  using assms
proof (induction "n - i" arbitrary: i mid mt s)
  case 0
  then have "i = n" by simp
  then show ?case using 0 by simp
next
  case (Suc m)
  then have lt: "i < n" and m: "m = n - Suc i" by simp_all
  obtain k' t' where
    one: "longest_waiting (\<lambda>j. clock s) (writers_queue (shared s)) [i] (mid, mt) = (k', t')"
    by (cases "longest_waiting (\<lambda>j. clock s) (writers_queue (shared s)) [i] (mid, mt)")
  let ?s = "s\<lparr>librarian_at := Librarian_searches (Suc i) k' t'\<rparr>"
  have st: "step1 Librarian_compares s = Some ?s"
    using Suc.prems lt one by simp
  have up: "[i..<n] = i # [Suc i..<n]" using lt by (simp add: upt_conv_Cons)
  have rest: "longest_waiting (\<lambda>j. clock ?s) (writers_queue (shared ?s)) [Suc i..<n] (k', t')
                = (k, t)"
  proof -
    have "longest_waiting (\<lambda>j. clock s) (writers_queue (shared s)) [i..<n] (mid, mt) =
          longest_waiting (\<lambda>j. clock s) (writers_queue (shared s)) [Suc i..<n] (k', t')"
      by (metis up longest_waiting_Cons one)
    then show ?thesis using Suc.prems(5) by simp
  qed
  have "run1 (replicate (n - Suc i) Librarian_compares) ?s =
          Some (?s\<lparr>librarian_at := Librarian_searches n k t\<rparr>)"
    using Suc.hyps(1) [OF m, of ?s k' t'] lt Suc.prems rest by simp
  moreover have "n - i = Suc (n - Suc i)" using lt by simp
  ultimately show ?case using st by simp
qed

text \<open>
  The round as one step is the round piece by piece when no reader or writer takes a step
  and the clock does not move in between: \<open>Librarian_cycles\<close> does what the test, the
  assignment, \<open>writers_count\<close> rounds of the loop and the signal do one after the other.
\<close>

lemma librarian_round_in_steps:
  assumes "librarian_at s = Librarian_sleeps"
    and "length (writers_queue (shared s)) = nat (writers_count (shared s))"
  shows "step1 Librarian_cycles s =
           run1 (if writers_in_library_count (shared s) = 0
                 then [Librarian_tests, Librarian_notifies] @
                      replicate (nat (writers_count (shared s))) Librarian_compares @
                      [Librarian_signals]
                 else [Librarian_tests]) s"
proof (cases "writers_in_library_count (shared s) = 0")
  case False
  then show ?thesis using assms by (simp add: librarian_cycle_def)
next
  case True
  let ?n = "nat (writers_count (shared s))"
  let ?s2 = "s\<lparr>shared := (shared s)\<lparr>writer_notification := 1\<rparr>,
                librarian_at := Librarian_searches 0 0 0\<rparr>"
  obtain k t where
    r: "longest_waiting (\<lambda>j. clock s) (writers_queue (shared s)) [0..<?n] (0, 0) = (k, t)"
    by (cases "longest_waiting (\<lambda>j. clock s) (writers_queue (shared s)) [0..<?n] (0, 0)")
  have a: "run1 [Librarian_tests, Librarian_notifies] s = Some ?s2"
    using assms True by simp
  have b: "run1 (replicate (?n - 0) Librarian_compares) ?s2 =
             Some (?s2\<lparr>librarian_at := Librarian_searches ?n k t\<rparr>)"
    by (rule librarian_compares_run [where mid = 0 and mt = 0]) (use assms r in simp_all)
  have c: "step1 Librarian_signals (?s2\<lparr>librarian_at := Librarian_searches ?n k t\<rparr>) =
             Some (s\<lparr>shared := (shared s)\<lparr>writer_notification := 1\<rparr>,
                     writers := (if k < length (writers s) \<and> writers s ! k = Writer_blocked
                                 then (writers s)[k := Writer_woken] else writers s),
                     librarian_at := Librarian_waits\<rparr>)"
    by simp
  have d: "step1 Librarian_cycles s =
             Some (s\<lparr>shared := (shared s)\<lparr>writer_notification := 1\<rparr>,
                     writers := (if k < length (writers s) \<and> writers s ! k = Writer_blocked
                                 then (writers s)[k := Writer_woken] else writers s),
                     librarian_at := Librarian_waits\<rparr>)"
    using assms True r by (simp add: librarian_cycle_def)
  have "run1 ([Librarian_tests, Librarian_notifies] @
               replicate ?n Librarian_compares @ [Librarian_signals]) s =
        Some (s\<lparr>shared := (shared s)\<lparr>writer_notification := 1\<rparr>,
                     writers := (if k < length (writers s) \<and> writers s ! k = Writer_blocked
                                 then (writers s)[k := Writer_woken] else writers s),
                     librarian_at := Librarian_waits\<rparr>)"
    unfolding run1_append using a b c by simp
  then show ?thesis using d True by simp
qed

text \<open>
  The search is inside \<open>if (!writers_in_library_count)\<close>: a round that finds a writer
  in the library signals no condition variable. Started as \<open>ReaderAndWriters1 2 1\<close>:
  the librarian wakes writer 0, finds no writer inside yet and goes to sleep; writer 0
  enters; the next round, run with nothing coming between, signals nobody although
  writer 1 waits.
\<close>

lemma no_writer_signalled_while_one_inside:
  "\<exists>s. Option.bind (started1 [''ReaderAndWriters1'', ''2'', ''1''])
          (run1 [Writer_waits 0, Writer_waits 1, Librarian_cycles, Librarian_sees_no_writer,
                 Writer_sees_no_reader 0, Writer_enters 0, Tick]) = Some s \<and>
       writers s = [Writer_inside, Writer_blocked] \<and>
       writers_queue (shared s) = [0, 1000] \<and>
       librarian_at s = Librarian_sleeps \<and>
       librarian_cycle (\<lambda>i. clock s) (shared s) = (shared s, None)"
  by (simp add: started1_def startup1_evals threads1_def globals1_start_def librarian_cycle_def
      write_book_enter1_def Let_def upt_conv_Cons to_int_def numeral_2_eq_2)

text \<open>
  What the search finds when no writer enters or leaves during the round, which is the
  round of \<open>librarian_cycle\<close>. If the round finds no writer in the library, there is at
  least one writer, and no waiting time is negative or beyond \<open>INT_MAX\<close>, then the
  librarian sets \<open>writer_notification\<close> and signals the condition variable of one
  writer \<open>k\<close>, whose waiting time (the clock as read in its round of the search, minus
  its \<open>writers_queue\<close> entry) is the largest, and strictly larger than that of every
  writer with a smaller id. Whether writer \<open>k\<close> is blocked on that condition variable,
  and so woken, is not part of this.
\<close>

lemma librarian_cycle_signals_longest_waiting:
  assumes guard: "writers_in_library_count g = 0"
    and some: "0 < writers_count g"
    and alloc: "length (writers_queue g) = nat (writers_count g)"
    and waits: "\<forall>i < nat (writers_count g).
                  0 \<le> clk i - writers_queue g ! i \<and> clk i - writers_queue g ! i \<le> INT_MAX"
  shows "\<exists>k < nat (writers_count g).
           librarian_cycle clk g = (g\<lparr>writer_notification := 1\<rparr>, Some k) \<and>
           (\<forall>j < nat (writers_count g).
              clk j - writers_queue g ! j \<le> clk k - writers_queue g ! k) \<and>
           (\<forall>j < k. clk j - writers_queue g ! j < clk k - writers_queue g ! k)"
proof -
  let ?n = "nat (writers_count g)"
  let ?d = "\<lambda>i. clk i - writers_queue g ! i"
  have n: "0 < ?n" using some by simp
  have w: "\<And>i. i < ?n \<Longrightarrow> to_int (?d i) = ?d i"
    using waits by (intro to_int_id) (auto simp: INT_MIN_def)
  obtain k t where r: "longest_waiting clk (writers_queue g) [0..<?n] (0, 0) = (k, t)"
    by (cases "longest_waiting clk (writers_queue g) [0..<?n] (0, 0)")
  from longest_waiting_result [OF r]
  have t0: "0 \<le> t" and all: "\<forall>i \<in> set [0..<?n]. to_int (?d i) \<le> t"
    and c: "(k = 0 \<and> t = 0) \<or>
          (0 < t \<and> (\<exists>ys zs. [0..<?n] = ys @ k # zs \<and> to_int (?d k) = t \<and>
                          (\<forall>j \<in> set ys. to_int (?d j) < t)))"
    by auto
  have all': "\<forall>i < ?n. ?d i \<le> t" using all w by simp
  have cyc: "librarian_cycle clk g = (g\<lparr>writer_notification := 1\<rparr>, Some k)"
    using guard r by (simp add: librarian_cycle_def)
  from c show ?thesis
  proof
    assume z: "k = 0 \<and> t = 0"
    have "?d 0 = t" using all' waits n z by (simp add: order_antisym)
    then show ?thesis using z n cyc all' by auto
  next
    assume "0 < t \<and> (\<exists>ys zs. [0..<?n] = ys @ k # zs \<and> to_int (?d k) = t \<and>
                          (\<forall>j \<in> set ys. to_int (?d j) < t))"
    then obtain ys zs where s: "[0..<?n] = ys @ k # zs" and kt: "to_int (?d k) = t"
      and before: "\<forall>j \<in> set ys. to_int (?d j) < t" by blast
    have kn: "k < ?n" and ys: "ys = [0..<k]" using upt_split_at [OF s] by simp_all
    have dk: "?d k = t" using kt w kn by simp
    have "\<forall>j < k. ?d j < ?d k" using before ys w kn dk by simp
    then show ?thesis using kn cyc all' dk by auto
  qed
qed

lemma all_less_3: "(\<forall>i < (3::nat). P i) \<longleftrightarrow> P 0 \<and> P 1 \<and> P 2"
  by (auto simp: numeral_3_eq_3 numeral_2_eq_2 less_Suc_eq)

lemma librarian_cycle_signals_longest_waiting_example:
  "writers_in_library_count example_three_writers = 0 \<and>
   0 < writers_count example_three_writers \<and>
   librarian_cycle (\<lambda>i. 200) example_three_writers =
     (example_three_writers\<lparr>writer_notification := 1\<rparr>, Some 1)"
proof -
  let ?g = example_three_writers
  have g: "writers_in_library_count ?g = 0" and s: "0 < writers_count ?g"
    and a: "length (writers_queue ?g) = nat (writers_count ?g)"
    by (simp_all add: example_three_writers_def globals1_start_def)
  have n: "nat (writers_count ?g) = 3" by (simp add: example_three_writers_def)
  have q: "writers_queue ?g ! 0 = 100" "writers_queue ?g ! 1 = 90" "writers_queue ?g ! 2 = 90"
    by (simp_all add: example_three_writers_def)
  have w: "\<forall>i < nat (writers_count ?g).
             0 \<le> (\<lambda>i. 200) i - writers_queue ?g ! i \<and>
             (\<lambda>i. 200) i - writers_queue ?g ! i \<le> INT_MAX"
    unfolding n all_less_3 using q by (simp add: INT_MAX_def)
  obtain k where k: "k < 3"
    and c: "librarian_cycle (\<lambda>i. 200) ?g = (?g\<lparr>writer_notification := 1\<rparr>, Some k)"
    and mx: "\<forall>j < 3. 200 - writers_queue ?g ! j \<le> 200 - writers_queue ?g ! k"
    and before: "\<forall>j < k. 200 - writers_queue ?g ! j < 200 - writers_queue ?g ! k"
    using librarian_cycle_signals_longest_waiting [OF g s a w] n by auto
  have k012: "k = 0 \<or> k = 1 \<or> k = 2" using k by auto
  have "k \<noteq> 0"
  proof
    assume "k = 0"
    moreover have "200 - writers_queue ?g ! 1 \<le> 200 - writers_queue ?g ! k" using mx by simp
    ultimately show False using q by simp
  qed
  moreover have "k \<noteq> 2"
  proof
    assume "k = 2"
    moreover have "(1::nat) < 2" by simp
    ultimately have "200 - writers_queue ?g ! 1 < 200 - writers_queue ?g ! 2" using before by blast
    then show False using q by simp
  qed
  ultimately have "k = 1" using k012 by simp
  then show ?thesis using g s c by simp
qed

text \<open>
  C5 fails on the code. The librarian reads \<open>writers_in_library_count\<close>, the clock and
  \<open>writers_queue\<close> without the mutex, a writer in the library has 0 in
  \<open>writers_queue\<close>, and \<open>pthread_cond_signal\<close> is lost on a writer that is not blocked
  in \<open>pthread_cond_wait\<close>. Two runs of \<open>ReaderAndWriters1 2 1\<close>, in each of which
  writer 1 is blocked on its condition variable and the round wakes no writer.

  First run. The librarian wakes writer 0 and leaves
  \<open>while (writers_in_library_count);\<close> before writer 0 has entered. In its next round
  it reads \<open>writers_in_library_count\<close> as 0; then writer 0 enters, which sets
  \<open>writers_queue[0]\<close> to 0; the search takes \<open>1001 - 0\<close> for the waiting time of
  writer 0, against 1 for writer 1, and ends with \<open>max_waiter_id = 0\<close>. The signal goes
  to writer 0, who is in the library; writer 1, the only writer that waits, stays blocked.

  Second run. Writer 1 is blocked and writer 0 has not yet reached
  \<open>pthread_cond_wait\<close>. Both have the same time in \<open>writers_queue\<close>, the search ends
  with \<open>max_waiter_id = 0\<close>, and the signal on \<open>writers_conds[0]\<close> finds nobody
  blocked there: \<open>writer_notification\<close> is set and no writer has been woken.
\<close>

theorem librarian_wakes_no_writer:
  "map_option (\<lambda>s. (writers s, writers_queue (shared s), librarian_at s))
     (Option.bind (started1 [''ReaderAndWriters1'', ''2'', ''1''])
        (run1 [Writer_waits 0, Writer_waits 1, Librarian_cycles, Librarian_sees_no_writer,
               Writer_sees_no_reader 0, Tick, Librarian_tests, Writer_enters 0,
               Librarian_notifies, Librarian_compares, Librarian_compares]))
     = Some ([Writer_inside, Writer_blocked], [0, 1000], Librarian_searches 2 0 1001) \<and>
   map_option (\<lambda>s. (writers s, writers_in_library_count (shared s), librarian_at s))
     (Option.bind (started1 [''ReaderAndWriters1'', ''2'', ''1''])
        (run1 [Writer_waits 0, Writer_waits 1, Librarian_cycles, Librarian_sees_no_writer,
               Writer_sees_no_reader 0, Tick, Librarian_tests, Writer_enters 0,
               Librarian_notifies, Librarian_compares, Librarian_compares, Librarian_signals]))
     = Some ([Writer_inside, Writer_blocked], 1, Librarian_waits) \<and>
   map_option (\<lambda>s. (writers s, writers_queue (shared s), librarian_at s))
     (Option.bind (started1 [''ReaderAndWriters1'', ''2'', ''1''])
        (run1 [Writer_waits 1, Tick, Librarian_tests, Librarian_notifies,
               Librarian_compares, Librarian_compares]))
     = Some ([Writer_top, Writer_blocked], [1000, 1000], Librarian_searches 2 0 1) \<and>
   map_option (\<lambda>s. (writers s, writer_notification (shared s), librarian_at s))
     (Option.bind (started1 [''ReaderAndWriters1'', ''2'', ''1''])
        (run1 [Writer_waits 1, Tick, Librarian_tests, Librarian_notifies,
               Librarian_compares, Librarian_compares, Librarian_signals]))
     = Some ([Writer_top, Writer_blocked], 1, Librarian_waits)"
  by code_simp

text \<open>
  C2 fails on the code. Started as \<open>ReaderAndWriters1 0 1\<close> there is no writer; the
  librarian's round still sets \<open>writer_notification\<close> and signals \<open>writers_conds[0]\<close>,
  an element the empty array does not have. The reader that checks next blocks on
  \<open>readers_cond\<close>, and no thread is left that would clear the flag or broadcast.
\<close>

theorem librarian_without_writers:
  "\<exists>g s. startup1 [''ReaderAndWriters1'', ''0'', ''1''] mwl mwq mrl mrq now = Inr g \<and>
         writers_count g = 0 \<and> writer_notification g = 0 \<and>
         librarian_cycle clk g = (g\<lparr>writer_notification := 1\<rparr>, Some 0) \<and>
         run1 [Librarian_cycles, Reader_checks 0] (threads1 g now) = Some s \<and>
         writer_notification (shared s) = 1 \<and> readers s = [Reader_blocked] \<and> writers s = []"
  by (simp add: startup1_evals threads1_def globals1_start_def librarian_cycle_def Let_def)

subsection \<open>Mutual exclusion\<close>

text \<open>
  C1 fails on \<open>r_w_1.c\<close>. A reader tests \<open>writer_notification\<close> in one critical
  section and enters in another; a writer leaves \<open>while (readers_in_library_count);\<close>
  and enters later. Started as \<open>ReaderAndWriters1 1 1\<close>: the writer blocks on its
  condition variable; the reader finds the flag clear; the librarian sets the flag and
  wakes the writer; the writer finds no reader inside and enters; the reader enters.
  One writer and one reader are in the library.
\<close>

theorem reader_and_writer_together:
  "\<exists>g s. startup1 [''ReaderAndWriters1'', ''1'', ''1''] mwl mwq mrl mrq now = Inr g \<and>
         run1 [Writer_waits 0, Reader_checks 0, Librarian_cycles, Writer_sees_no_reader 0,
               Writer_enters 0, Reader_enters 0] (threads1 g now) = Some s \<and>
         readers s = [Reader_inside] \<and> writers s = [Writer_inside] \<and>
         writers_in_library_count (shared s) = 1 \<and>
         readers_in_library_count (shared s) = 1"
  by (simp add: startup1_evals threads1_def globals1_start_def librarian_cycle_def
      read_books_enter1_def write_book_enter1_def Let_def)

text \<open>
  \<open>r_w_2.c\<close> lets a writer and a reader in together as well, by the schedule above:
  after the librarian has woken reader 0 in place of the head, it finds writer 0 at the
  head, waits until readers 1 to 19 have left, and wakes writer 0; writer 0 enters, and
  so does reader 0.
\<close>

lemma reader_and_writer_together2:
  "map_option (\<lambda>s. (get_writers_in_library_count (shared2 s),
                    get_readers_in_library_count (shared2 s),
                    occupied (in_library (shared2 s))))
     (Option.bind (started2 [''ReaderAndWriters2'', ''2'', ''20''])
        (run2 (reader19_woken @ stale_wake @ [Librarian_reads_head] @
               map Reader_leaves2 [1..<20] @
               [Writer_waits2 0, Librarian_broadcasts, Writer_enters2 0, Reader_enters2 0])))
     = Some (1, 1, [(WRITER_KIND, 0), (READER_KIND, 0)])"
  by code_simp


end
